theory Spec2Isabelle
  imports Main "HOL-Library.Word" "HOL-Library.Signed_Division"
begin

unbundle bit_operations_syntax

section \<open>The Worker of worker.go\<close>

text \<open>
  Go's \<^verbatim>\<open>int64\<close> and \<^verbatim>\<open>uint64\<close> are both 64-bit words; the signed reading is
  \<open>sint\<close>, the unsigned one \<open>unat\<close>. \<^verbatim>\<open>time.Duration\<close> is an \<^verbatim>\<open>int64\<close>.
\<close>

type_synonym int64 = "64 word"
type_synonym uint64 = "64 word"

text \<open>
  The struct of lines 9-22. The field \<open>mutex\<close> holds the state of the
  \<^verbatim>\<open>sync.Mutex\<close>: \<open>True\<close> when it is locked.
\<close>

record Worker =
  ID :: int64
  IDBits :: uint64
  IDShift :: uint64
  Sequence :: int64
  SequenceBits :: uint64
  LastTimeStamp :: int64
  TimeStampBits :: uint64
  TimeStampShift :: uint64
  Frequency :: int64
  TotalBits :: uint64
  CustomEpoch :: int64
  mutex :: bool

text \<open>
  The ways a call can end other than by returning: \<^verbatim>\<open>log.Fatal\<close> of line 30
  (the process exits), the run-time panic of an integer division by zero
  (lines 81 and 111), and the fatal error of unlocking a mutex that is not locked.
\<close>

datatype error = FatalConfig | DivideByZero | UnlockOfUnlocked

text \<open>
  The wall clock is the sequence of values that \<^verbatim>\<open>time.Now().UnixNano()\<close>
  returns at the successive reads made through a Worker: \<open>now p\<close> is the value of
  read number \<open>p\<close>. A position \<open>p\<close> (the number of reads made so far) is threaded
  through every operation.
\<close>

type_synonym clock = "nat \<Rightarrow> int64"

subsection \<open>Go's integer operators on int64\<close>

text \<open>
  \<^verbatim>\<open>/\<close> and \<^verbatim>\<open>%\<close> truncate towards zero and wrap around on
  \<^verbatim>\<open>MinInt64 / -1\<close>; the caller checks for a zero divisor, where Go panics.
  \<^verbatim>\<open>x << s\<close> with an unsigned count \<open>s\<close> is zero once \<open>s\<close> reaches 64, as
  \<open>push_bit\<close> is on a word.
\<close>

definition quo64 :: "int64 \<Rightarrow> int64 \<Rightarrow> int64" where
  "quo64 a b = word_of_int (sint a sdiv sint b)"

definition rem64 :: "int64 \<Rightarrow> int64 \<Rightarrow> int64" where
  "rem64 a b = word_of_int (sint a smod sint b)"

definition shl64 :: "int64 \<Rightarrow> uint64 \<Rightarrow> int64" where
  "shl64 x s = push_bit (unat s) x"

subsection \<open>Time (lines 110-112)\<close>

text \<open>
  One read of the clock, divided by the tick duration. The result is the tick or the
  panic, and the clock position after the read.
\<close>

definition Time :: "clock \<Rightarrow> Worker \<Rightarrow> nat \<Rightarrow> (error + int64) \<times> nat" where
  "Time now w p =
     (if Frequency w = 0 then (Inl DivideByZero, Suc p)
      else (Inr (quo64 (now p) (Frequency w)), Suc p))"

subsection \<open>waitForNextTime (lines 102-108)\<close>

text \<open>
  The loop of lines 104-106, entered with the tick \<open>ts\<close> read last. It may spin
  forever: \<open>None\<close> is the call that never returns.
\<close>

partial_function (option) waitLoop ::
  "clock \<Rightarrow> Worker \<Rightarrow> int64 \<Rightarrow> nat \<Rightarrow> ((error + int64) \<times> nat) option" where
  "waitLoop now w ts p =
     (if ts \<le>s LastTimeStamp w then
        (case Time now w p of
           (Inl e, p') \<Rightarrow> Some (Inl e, p')
         | (Inr ts', p') \<Rightarrow> waitLoop now w ts' p')
      else Some (Inr ts, p))"

text \<open>
  A method of the Worker returns, when it returns at all, its result or the panic
  that ended it, together with the Worker as the call left it and the clock position.
\<close>

type_synonym 'a outcome = "((error + 'a) \<times> Worker \<times> nat) option"

definition waitForNextTime :: "clock \<Rightarrow> Worker \<Rightarrow> nat \<Rightarrow> unit outcome" where
  "waitForNextTime now w p =
     (case Time now w p of
        (Inl e, p1) \<Rightarrow> Some (Inl e, w, p1)
      | (Inr ts, p1) \<Rightarrow>
          (case waitLoop now w ts p1 of
             None \<Rightarrow> None
           | Some (Inl e, p2) \<Rightarrow> Some (Inl e, w, p2)
           | Some (Inr ts', p2) \<Rightarrow> Some (Inr (), w\<lparr>LastTimeStamp := ts'\<rparr>, p2)))"

subsection \<open>UnsafeNextID (lines 73-95)\<close>

text \<open>Lines 76-78: the wait when the clock is behind the recorded tick.\<close>

definition driftStep :: "clock \<Rightarrow> Worker \<Rightarrow> int64 \<Rightarrow> nat \<Rightarrow> unit outcome" where
  "driftStep now w timestamp p =
     (if timestamp <s LastTimeStamp w then waitForNextTime now w p
      else Some (Inr (), w, p))"

text \<open>
  Lines 80-88: the sequence step. The result is the value of the local variable
  \<^verbatim>\<open>timestamp\<close> after the step. The divisor \<^verbatim>\<open>1 << w.SequenceBits\<close> is an
  \<^verbatim>\<open>int64\<close>; it is zero when \<open>SequenceBits\<close> is 64 or more, and the remainder
  panics before \<open>Sequence\<close> is assigned.
\<close>

definition sequenceStep :: "clock \<Rightarrow> Worker \<Rightarrow> int64 \<Rightarrow> nat \<Rightarrow> int64 outcome" where
  "sequenceStep now w timestamp p =
     (if LastTimeStamp w = timestamp then
        (if shl64 1 (SequenceBits w) = 0 then Some (Inl DivideByZero, w, p)
         else
           (let w1 = w\<lparr>Sequence := rem64 (Sequence w + 1) (shl64 1 (SequenceBits w))\<rparr> in
            if Sequence w1 = 0 then
              (case waitForNextTime now w1 p of
                 None \<Rightarrow> None
               | Some (Inl e, w2, p2) \<Rightarrow> Some (Inl e, w2, p2)
               | Some (Inr _, w2, p2) \<Rightarrow> Some (Inr (LastTimeStamp w2), w2, p2))
            else Some (Inr timestamp, w1, p)))
      else Some (Inr timestamp, w\<lparr>Sequence := 0\<rparr>, p))"

text \<open>Lines 92-94: the returned expression, on the final value of \<^verbatim>\<open>timestamp\<close>.\<close>

definition composeID :: "Worker \<Rightarrow> int64 \<Rightarrow> int64" where
  "composeID w timestamp =
     shl64 (timestamp - CustomEpoch w) (TimeStampShift w)
       OR shl64 (ID w) (IDShift w)
       OR Sequence w"

definition UnsafeNextID :: "clock \<Rightarrow> Worker \<Rightarrow> nat \<Rightarrow> int64 outcome" where
  "UnsafeNextID now w p =
     (case Time now w p of
        (Inl e, p1) \<Rightarrow> Some (Inl e, w, p1)
      | (Inr timestamp, p1) \<Rightarrow>
          (case driftStep now w timestamp p1 of
             None \<Rightarrow> None
           | Some (Inl e, w1, p2) \<Rightarrow> Some (Inl e, w1, p2)
           | Some (Inr _, w1, p2) \<Rightarrow>
               (case sequenceStep now w1 timestamp p2 of
                  None \<Rightarrow> None
                | Some (Inl e, w2, p3) \<Rightarrow> Some (Inl e, w2, p3)
                | Some (Inr timestamp', w2, p3) \<Rightarrow>
                    (let w3 = w2\<lparr>LastTimeStamp := timestamp'\<rparr> in
                     Some (Inr (composeID w3 timestamp'), w3, p3)))))"

subsection \<open>NextID (lines 64-69)\<close>

text \<open>
  \<^verbatim>\<open>Lock\<close> on a locked mutex blocks; with no other goroutine in the model to
  release it, the call never returns. \<^verbatim>\<open>Unlock\<close> on a mutex that is not locked
  is a fatal error.
\<close>

definition Lock :: "Worker \<Rightarrow> Worker option" where
  "Lock w = (if mutex w then None else Some (w\<lparr>mutex := True\<rparr>))"

definition Unlock :: "Worker \<Rightarrow> error + Worker" where
  "Unlock w = (if mutex w then Inr (w\<lparr>mutex := False\<rparr>) else Inl UnlockOfUnlocked)"

text \<open>
  The deferred \<^verbatim>\<open>Unlock\<close> runs when \<^verbatim>\<open>UnsafeNextID\<close> returns and when it
  panics; the panic then goes on to the caller.
\<close>

definition NextID :: "clock \<Rightarrow> Worker \<Rightarrow> nat \<Rightarrow> int64 outcome" where
  "NextID now w p =
     (case Lock w of
        None \<Rightarrow> None
      | Some w1 \<Rightarrow>
          (case UnsafeNextID now w1 p of
             None \<Rightarrow> None
           | Some (r, w2, p2) \<Rightarrow>
               (case Unlock w2 of
                  Inl e \<Rightarrow> Some (Inl e, w2, p2)
                | Inr w3 \<Rightarrow> Some (r, w3, p2))))"

subsection \<open>NewWorker (lines 24-47)\<close>

text \<open>
  The sum of line 28 is a \<^verbatim>\<open>uint64\<close> sum and wraps around, as does the shift of
  line 40. \<^verbatim>\<open>log.Fatal\<close> ends the process; a zero frequency panics in the
  \<^verbatim>\<open>Time\<close> call of line 45. The zero value of the mutex is unlocked.
\<close>

definition NewWorker ::
  "clock \<Rightarrow> int64 \<Rightarrow> int64 \<Rightarrow> uint64 \<Rightarrow> uint64 \<Rightarrow> uint64 \<Rightarrow> int64 \<Rightarrow> nat
     \<Rightarrow> error + (Worker \<times> nat)" where
  "NewWorker now id' epoch idBits sequenceBits timestampBits frequency p =
     (let totalBits = idBits + sequenceBits + timestampBits + 1 in
      if unat totalBits mod 6 \<noteq> 0 then Inl FatalConfig
      else
        (let w = \<lparr>ID = id', IDBits = idBits, IDShift = sequenceBits, Sequence = 0,
                  SequenceBits = sequenceBits, LastTimeStamp = 0,
                  TimeStampBits = timestampBits,
                  TimeStampShift = sequenceBits + idBits, Frequency = frequency,
                  TotalBits = totalBits, CustomEpoch = epoch, mutex = False\<rparr>
         in case Time now w p of
              (Inl e, p1) \<Rightarrow> Inl e
            | (Inr ts, p1) \<Rightarrow> Inr (w\<lparr>LastTimeStamp := ts\<rparr>, p1)))"

subsection \<open>IDString (lines 97-100)\<close>

text \<open>
  \<^verbatim>\<open>IntToString\<close> is not part of worker.go: it is a parameter here, a function
  from the id and the bit count to the string and the error it returns
  (\<open>None\<close> for \<^verbatim>\<open>nil\<close>).
\<close>

type_synonym encoder = "int64 \<Rightarrow> uint64 \<Rightarrow> string \<times> string option"

definition IDString :: "encoder \<Rightarrow> Worker \<Rightarrow> int64 \<Rightarrow> string" where
  "IDString IntToString w id' = (case IntToString id' (TotalBits w) of (str, _) \<Rightarrow> str)"

section \<open>Vocabulary of the properties\<close>

text \<open>The tick that read number \<open>k\<close> of the clock yields for the Worker \<open>w\<close>.\<close>

definition tick :: "clock \<Rightarrow> Worker \<Rightarrow> nat \<Rightarrow> int64" where
  "tick now w k = quo64 (now k) (Frequency w)"

text \<open>
  \<open>waited now w p k\<close>: of the reads from \<open>p\<close> on, read \<open>k\<close> is the first whose tick
  is strictly later than the recorded \<open>LastTimeStamp\<close>.
\<close>

definition waited :: "clock \<Rightarrow> Worker \<Rightarrow> nat \<Rightarrow> nat \<Rightarrow> bool" where
  "waited now w p k \<longleftrightarrow>
     p \<le> k \<and> LastTimeStamp w <s tick now w k \<and>
     (\<forall>j. p \<le> j \<and> j < k \<longrightarrow> tick now w j \<le>s LastTimeStamp w)"

text \<open>The range of the sequence counter: \<open>0 \<le> Sequence < 2 ^ SequenceBits\<close>.\<close>

definition sequenceInRange :: "Worker \<Rightarrow> bool" where
  "sequenceInRange w \<longleftrightarrow>
     0 \<le> sint (Sequence w) \<and> sint (Sequence w) < 2 ^ unat (SequenceBits w)"

text \<open>
  A configuration is sane when the shifts are the derived ones, the three widths and
  the sign bit fit into the 64 bits of an id (the widths added as natural numbers;
  this holds in particular when their sum with the sign bit is at most 63), and the
  worker id fits its field.
\<close>

definition saneConfig :: "Worker \<Rightarrow> bool" where
  "saneConfig w \<longleftrightarrow>
     IDShift w = SequenceBits w \<and>
     TimeStampShift w = SequenceBits w + IDBits w \<and>
     unat (IDBits w) + unat (SequenceBits w) + unat (TimeStampBits w) + 1 \<le> 64 \<and>
     0 \<le> sint (ID w) \<and> sint (ID w) < 2 ^ unat (IDBits w)"

text \<open>The tick \<open>t\<close> lies in the window of the timestamp field: \<open>0 \<le> t - epoch < 2 ^ TimeStampBits\<close>.\<close>

definition tickInRange :: "Worker \<Rightarrow> int64 \<Rightarrow> bool" where
  "tickInRange w t \<longleftrightarrow>
     0 \<le> sint t - sint (CustomEpoch w) \<and>
     sint t - sint (CustomEpoch w) < 2 ^ unat (TimeStampBits w)"

text \<open>Two Workers with the same nine configuration fields.\<close>

definition sameConfig :: "Worker \<Rightarrow> Worker \<Rightarrow> bool" where
  "sameConfig w w' \<longleftrightarrow>
     ID w' = ID w \<and> IDBits w' = IDBits w \<and> IDShift w' = IDShift w \<and>
     SequenceBits w' = SequenceBits w \<and> TimeStampBits w' = TimeStampBits w \<and>
     TimeStampShift w' = TimeStampShift w \<and> Frequency w' = Frequency w \<and>
     TotalBits w' = TotalBits w \<and> CustomEpoch w' = CustomEpoch w"

text \<open>
  The (tick, sequence) pair of \<open>w\<close> is below that of \<open>w'\<close>: the tick is strictly
  earlier, or it is the same and the sequence is strictly smaller.
\<close>

definition precedes :: "Worker \<Rightarrow> Worker \<Rightarrow> bool" where
  "precedes w w' \<longleftrightarrow>
     sint (LastTimeStamp w) < sint (LastTimeStamp w') \<or>
     (LastTimeStamp w' = LastTimeStamp w \<and> sint (Sequence w) < sint (Sequence w'))"

text \<open>
  A generator: a Worker built by \<open>NewWorker\<close> and used since only through calls of
  \<open>UnsafeNextID\<close> and \<open>NextID\<close> that returned an id, together with the position of
  the clock after them.
\<close>

inductive generator :: "clock \<Rightarrow> Worker \<Rightarrow> nat \<Rightarrow> bool" for now :: clock where
  built: "NewWorker now id' epoch idBits sequenceBits timestampBits frequency q = Inr (w, p)
            \<Longrightarrow> generator now w p"
| unsafe: "generator now w p \<Longrightarrow> UnsafeNextID now w p = Some (Inr i, w', p')
            \<Longrightarrow> generator now w' p'"
| safe: "generator now w p \<Longrightarrow> NextID now w p = Some (Inr i, w', p')
            \<Longrightarrow> generator now w' p'"

text \<open>
  A single caller making \<open>n\<close> calls of \<open>gen\<close> (\<open>NextID\<close> or \<open>UnsafeNextID\<close>) one
  after the other, and the ids they return in order. A panic ends the run.
\<close>

fun calls ::
  "(Worker \<Rightarrow> nat \<Rightarrow> int64 outcome) \<Rightarrow> nat \<Rightarrow> Worker \<Rightarrow> nat \<Rightarrow> (int64 list) outcome" where
  "calls gen 0 w p = Some (Inr [], w, p)"
| "calls gen (Suc n) w p =
     (case gen w p of
        None \<Rightarrow> None
      | Some (Inl e, w1, p1) \<Rightarrow> Some (Inl e, w1, p1)
      | Some (Inr i, w1, p1) \<Rightarrow>
          (case calls gen n w1 p1 of
             None \<Rightarrow> None
           | Some (Inl e, w2, p2) \<Rightarrow> Some (Inl e, w2, p2)
           | Some (Inr ids, w2, p2) \<Rightarrow> Some (Inr (i # ids), w2, p2)))"

text \<open>
  The same run, recording instead of the ids the Worker that each call leaves behind:
  its \<open>LastTimeStamp\<close> and \<open>Sequence\<close> are the tick and the sequence of the id
  the call returned.
\<close>

fun callStates ::
  "(Worker \<Rightarrow> nat \<Rightarrow> int64 outcome) \<Rightarrow> nat \<Rightarrow> Worker \<Rightarrow> nat \<Rightarrow> (Worker list) outcome" where
  "callStates gen 0 w p = Some (Inr [], w, p)"
| "callStates gen (Suc n) w p =
     (case gen w p of
        None \<Rightarrow> None
      | Some (Inl e, w1, p1) \<Rightarrow> Some (Inl e, w1, p1)
      | Some (Inr i, w1, p1) \<Rightarrow>
          (case callStates gen n w1 p1 of
             None \<Rightarrow> None
           | Some (Inl e, w2, p2) \<Rightarrow> Some (Inl e, w2, p2)
           | Some (Inr vs, w2, p2) \<Rightarrow> Some (Inr (w1 # vs), w2, p2)))"

text \<open>
  The inverse of the composition of lines 92-94, field by field: shift right
  (\<^verbatim>\<open>>>\<close> on an \<^verbatim>\<open>int64\<close> is the arithmetic shift) and mask to the width of the
  field. worker.go has no decoder; these are the operations a reader of an id applies.
\<close>

definition sequenceField :: "Worker \<Rightarrow> int64 \<Rightarrow> int64" where
  "sequenceField w i = i AND mask (unat (SequenceBits w))"

definition workerField :: "Worker \<Rightarrow> int64 \<Rightarrow> int64" where
  "workerField w i = signed_drop_bit (unat (IDShift w)) i AND mask (unat (IDBits w))"

definition timestampField :: "Worker \<Rightarrow> int64 \<Rightarrow> int64" where
  "timestampField w i =
     signed_drop_bit (unat (TimeStampShift w)) i AND mask (unat (TimeStampBits w))"

section \<open>The pre-generated workers and an example clock\<close>

text \<open>
  Lines 52-62: the four Workers built when the package is loaded, each from one read
  of the clock. The tick durations are in nanoseconds.
\<close>

definition TenLengthWorker :: "clock \<Rightarrow> nat \<Rightarrow> error + (Worker \<times> nat)" where
  "TenLengthWorker now p = NewWorker now 0 1451606400000 5 13 41 1000000 p"

definition NineLengthWorker :: "clock \<Rightarrow> nat \<Rightarrow> error + (Worker \<times> nat)" where
  "NineLengthWorker now p = NewWorker now 0 145160640000 2 13 38 10000000 p"

definition EightLengthWorker :: "clock \<Rightarrow> nat \<Rightarrow> error + (Worker \<times> nat)" where
  "EightLengthWorker now p = NewWorker now 0 14516064000 1 12 34 100000000 p"

definition SevenLengthWorker :: "clock \<Rightarrow> nat \<Rightarrow> error + (Worker \<times> nat)" where
  "SevenLengthWorker now p = NewWorker now 0 1451606400 0 10 31 1000000000 p"

text \<open>
  A clock for the examples: the first four reads return 1000 ns, every later read
  1020 ns. With a tick of 10 ns the ticks are 100, 100, 100, 100, 102, 102, ...
  \<open>exampleWorker\<close> is the Worker that \<open>NewWorker\<close> builds on this clock with id 1,
  epoch 100, one id bit, one sequence bit and three timestamp bits.
\<close>

definition exampleClock :: clock where
  "exampleClock k = (if k < 4 then 1000 else 1020)"

definition exampleWorker :: Worker where
  "exampleWorker = \<lparr>ID = 1, IDBits = 1, IDShift = 1, Sequence = 0, SequenceBits = 1,
     LastTimeStamp = 100, TimeStampBits = 3, TimeStampShift = 2, Frequency = 10,
     TotalBits = 6, CustomEpoch = 100, mutex = False\<rparr>"

text \<open>
  A clock that is set back: the reads return 1010, 1020, 1050, 1020 and then 1060 ns,
  so the ticks of 10 ns are 101, 102, 105, 102, 106, 106, ...
\<close>

definition driftClock :: clock where
  "driftClock k = (if k = 0 then 1010 else if k = 1 then 1020 else if k = 2 then 1050
                   else if k = 3 then 1020 else 1060)"

text \<open>
  Inputs on which an id comes back twice. \<open>overflowClock\<close> reads 0, 1, \<open>2 ^ 45\<close> and
  then \<open>2 ^ 46 + 1\<close> ns; \<open>stepClock\<close> reads 0, 0 and then 1 ns. \<open>tenBitsWorker i\<close> is
  the Worker that \<open>NewWorker\<close> builds at tick 0 with worker id \<open>i\<close>, epoch 0, the
  widths 5, 13, 41 of \<open>TenLengthWorker\<close> and a tick of 1 ns; \<open>wideWorker\<close> the one it
  builds with worker id 0 and the widths 30, 40, 1.
\<close>

definition overflowClock :: clock where
  "overflowClock k = (if k = 0 then 0 else if k = 1 then 1 else if k = 2 then 35184372088832
                      else 70368744177665)"

definition stepClock :: clock where
  "stepClock k = (if k < 2 then 0 else 1)"

definition tenBitsWorker :: "int64 \<Rightarrow> Worker" where
  "tenBitsWorker i = \<lparr>ID = i, IDBits = 5, IDShift = 13, Sequence = 0, SequenceBits = 13,
     LastTimeStamp = 0, TimeStampBits = 41, TimeStampShift = 18, Frequency = 1,
     TotalBits = 60, CustomEpoch = 0, mutex = False\<rparr>"

definition wideWorker :: Worker where
  "wideWorker = \<lparr>ID = 0, IDBits = 30, IDShift = 40, Sequence = 0, SequenceBits = 40,
     LastTimeStamp = 0, TimeStampBits = 1, TimeStampShift = 70, Frequency = 1,
     TotalBits = 72, CustomEpoch = 0, mutex = False\<rparr>"

text \<open>
  \<open>oversizedWorker\<close> is the Worker that \<open>NewWorker\<close> builds at tick 0 with the widths
  0, 65, 0 (their sum and the sign bit is 66, divisible by 6) and a tick of 1 ns.
\<close>

definition oversizedWorker :: Worker where
  "oversizedWorker = \<lparr>ID = 0, IDBits = 0, IDShift = 65, Sequence = 0, SequenceBits = 65,
     LastTimeStamp = 0, TimeStampBits = 0, TimeStampShift = 65, Frequency = 1,
     TotalBits = 66, CustomEpoch = 0, mutex = False\<rparr>"

text \<open>
  Inputs for the calls within one tick, all with \<open>SequenceBits = 0\<close>. \<open>pairClock\<close>
  reads 1000, 1000, 1020, 1020 and then 1040 ns; \<open>pairWorker\<close> is the Worker that
  \<open>NewWorker\<close> builds on it with worker id 0, epoch 100, the widths 0, 0, 5 and a tick
  of 10 ns. \<open>lateClock t\<close> reads 4, 5, 5 and then \<open>t\<close> ns; \<open>fieldWorker i idBits
  timestampBits\<close> is the Worker built on it with worker id \<open>i\<close>, epoch 5, the widths
  \<open>idBits\<close>, 0, \<open>timestampBits\<close> and a tick of 1 ns. \<open>backClock\<close> is set back
  twice: it reads 1, 5, 3, 6, 3 and then 5 ns; \<open>backWorker\<close> is the Worker built on
  it with worker id 0, epoch 0, the widths 0, 0, 5 and a tick of 1 ns. \<open>stillClock\<close>
  stands still: every read is 1000 ns.
\<close>

definition pairClock :: clock where
  "pairClock k = (if k < 2 then 1000 else if k < 4 then 1020 else 1040)"

definition pairWorker :: Worker where
  "pairWorker = \<lparr>ID = 0, IDBits = 0, IDShift = 0, Sequence = 0, SequenceBits = 0,
     LastTimeStamp = 100, TimeStampBits = 5, TimeStampShift = 0, Frequency = 10,
     TotalBits = 6, CustomEpoch = 100, mutex = False\<rparr>"

definition lateClock :: "int64 \<Rightarrow> clock" where
  "lateClock t k = (if k = 0 then 4 else if k < 3 then 5 else t)"

definition fieldWorker :: "int64 \<Rightarrow> uint64 \<Rightarrow> uint64 \<Rightarrow> Worker" where
  "fieldWorker i idBits timestampBits = \<lparr>ID = i, IDBits = idBits, IDShift = 0, Sequence = 0,
     SequenceBits = 0, LastTimeStamp = 4, TimeStampBits = timestampBits,
     TimeStampShift = idBits, Frequency = 1, TotalBits = idBits + timestampBits + 1,
     CustomEpoch = 5, mutex = False\<rparr>"

definition backClock :: clock where
  "backClock k = (if k = 0 then 1 else if k = 1 then 5 else if k = 2 then 3
                  else if k = 3 then 6 else if k = 4 then 3 else 5)"

definition backWorker :: Worker where
  "backWorker = \<lparr>ID = 0, IDBits = 0, IDShift = 0, Sequence = 0, SequenceBits = 0,
     LastTimeStamp = 1, TimeStampBits = 5, TimeStampShift = 0, Frequency = 1,
     TotalBits = 6, CustomEpoch = 0, mutex = False\<rparr>"

definition stillClock :: clock where
  "stillClock k = 1000"

section \<open>The clock and the wait loop\<close>

lemma Time_ok: "Frequency w \<noteq> 0 \<Longrightarrow> Time now w p = (Inr (tick now w p), Suc p)"
  by (simp add: Time_def tick_def)

lemma waitLoop_done: "\<not> ts \<le>s LastTimeStamp w \<Longrightarrow> waitLoop now w ts p = Some (Inr ts, p)"
  by (subst waitLoop.simps) simp

lemma waitLoop_step:
  "Frequency w \<noteq> 0 \<Longrightarrow> ts \<le>s LastTimeStamp w \<Longrightarrow>
   waitLoop now w ts p = waitLoop now w (tick now w p) (Suc p)"
  by (subst waitLoop.simps) (simp add: Time_ok)

lemma waitLoop_returns:
  assumes f: "Frequency w \<noteq> 0"
    and k: "LastTimeStamp w <s tick now w k"
    and before: "\<forall>j. p \<le> j \<and> j < k \<longrightarrow> tick now w j \<le>s LastTimeStamp w"
    and pk: "p \<le> k" and ts: "ts \<le>s LastTimeStamp w"
  shows "waitLoop now w ts p = Some (Inr (tick now w k), Suc k)"
  using before pk ts
proof (induction "k - p" arbitrary: p ts)
  case 0
  then have "p = k" by simp
  with f k "0.prems" show ?case
    by (simp add: waitLoop_step waitLoop_done signed.not_le)
next
  case (Suc n)
  then have lt: "p < k" by simp
  with Suc.prems have tp: "tick now w p \<le>s LastTimeStamp w" by simp
  have "waitLoop now w (tick now w p) (Suc p) = Some (Inr (tick now w k), Suc k)"
    using Suc.hyps Suc.prems lt tp by (intro Suc.hyps(1)) auto
  with f Suc.prems show ?case by (simp add: waitLoop_step)
qed

lemma waited_Suc:
  "tick now w p \<le>s LastTimeStamp w \<Longrightarrow> waited now w (Suc p) k \<Longrightarrow> waited now w p k"
  unfolding waited_def
  by (metis Suc_leD Suc_leI le_neq_implies_less)

lemma waited_here: "LastTimeStamp w <s tick now w p \<Longrightarrow> waited now w p p"
  by (auto simp add: waited_def)

lemma waitLoop_Some:
  assumes run: "waitLoop now w ts p = Some y" and f: "Frequency w \<noteq> 0"
  shows "(y = (Inr ts, p) \<and> LastTimeStamp w <s ts) \<or>
         (ts \<le>s LastTimeStamp w \<and> (\<exists>k. y = (Inr (tick now w k), Suc k) \<and> waited now w p k))"
proof -
  let ?P = "\<lambda>now w ts p y. Frequency w \<noteq> 0 \<longrightarrow>
     (y = (Inr ts, p) \<and> LastTimeStamp w <s ts) \<or>
     (ts \<le>s LastTimeStamp w \<and> (\<exists>k. y = (Inr (tick now w k), Suc k) \<and> waited now w p k))"
  have "?P now w ts p y"
  proof (rule waitLoop.raw_induct [where P = ?P, OF _ run])
    fix loop :: "clock \<Rightarrow> Worker \<Rightarrow> int64 \<Rightarrow> nat \<Rightarrow> ((error + int64) \<times> nat) option"
    fix now w ts p y
    assume IH: "\<And>now w ts p y. loop now w ts p = Some y \<Longrightarrow> ?P now w ts p y"
      and body: "(if ts \<le>s LastTimeStamp w then
        (case Time now w p of
           (Inl e, p') \<Rightarrow> Some (Inl e, p')
         | (Inr ts', p') \<Rightarrow> loop now w ts' p')
      else Some (Inr ts, p)) = Some y"
    show "?P now w ts p y"
    proof
      assume fw: "Frequency w \<noteq> 0"
      show "(y = (Inr ts, p) \<and> LastTimeStamp w <s ts) \<or>
        (ts \<le>s LastTimeStamp w \<and> (\<exists>k. y = (Inr (tick now w k), Suc k) \<and> waited now w p k))"
      proof (cases "ts \<le>s LastTimeStamp w")
        case False
        with body show ?thesis by (auto simp: signed.not_le)
      next
        case True
        with body fw have rec: "loop now w (tick now w p) (Suc p) = Some y"
          by (simp add: Time_ok)
        from IH [OF rec] fw
        consider "y = (Inr (tick now w p), Suc p)" "LastTimeStamp w <s tick now w p"
          | k where "tick now w p \<le>s LastTimeStamp w" "y = (Inr (tick now w k), Suc k)"
              "waited now w (Suc p) k"
          by blast
        then show ?thesis
        proof cases
          case 1
          with True show ?thesis using waited_here by blast
        next
          case 2
          with True show ?thesis using waited_Suc by blast
        qed
      qed
    qed
  qed
  with f show ?thesis by blast
qed

lemma waitLoop_waited:
  assumes "Frequency w \<noteq> 0" "ts \<le>s LastTimeStamp w" "waited now w p k"
  shows "waitLoop now w ts p = Some (Inr (tick now w k), Suc k)"
  using assms by (intro waitLoop_returns) (auto simp: waited_def)

lemma waited_unique: "waited now w p k \<Longrightarrow> waited now w p k' \<Longrightarrow> k = k'"
  unfolding waited_def
  by (metis linorder_neqE_nat signed.not_le)

lemma waitForNextTime_Some:
  assumes "waitForNextTime now w p = Some y" and f: "Frequency w \<noteq> 0"
  shows "\<exists>k. waited now w p k \<and> y = (Inr (), w\<lparr>LastTimeStamp := tick now w k\<rparr>, Suc k)"
proof (cases "tick now w p \<le>s LastTimeStamp w")
  case True
  from assms obtain r p2 where l: "waitLoop now w (tick now w p) (Suc p) = Some (r, p2)"
    by (auto simp: waitForNextTime_def Time_ok split: option.splits)
  from waitLoop_Some [OF l f] True obtain k where
    k: "r = Inr (tick now w k)" "p2 = Suc k" "waited now w (Suc p) k"
    by (auto simp: signed.not_less)
  from k(3) True have "waited now w p k" by (rule waited_Suc [rotated])
  with assms l k show ?thesis
    by (auto simp: waitForNextTime_def Time_ok)
next
  case False
  then have "waited now w p p" by (auto simp: waited_def signed.not_le)
  moreover from False assms have "y = (Inr (), w\<lparr>LastTimeStamp := tick now w p\<rparr>, Suc p)"
    by (simp add: waitForNextTime_def Time_ok waitLoop_done)
  ultimately show ?thesis by blast
qed

lemma waitForNextTime_waited:
  assumes f: "Frequency w \<noteq> 0" and k: "waited now w p k"
  shows "waitForNextTime now w p = Some (Inr (), w\<lparr>LastTimeStamp := tick now w k\<rparr>, Suc k)"
proof (cases "tick now w p \<le>s LastTimeStamp w")
  case True
  with k have "p \<noteq> k" by (auto simp: waited_def signed.not_le [symmetric])
  with k True have "waited now w (Suc p) k" by (auto simp: waited_def)
  with f True have "waitLoop now w (tick now w p) (Suc p) = Some (Inr (tick now w k), Suc k)"
    by (rule waitLoop_waited)
  with f show ?thesis by (simp add: waitForNextTime_def Time_ok)
next
  case False
  then have "waited now w p p" by (auto simp: waited_def signed.not_le)
  with k have "k = p" by (rule waited_unique)
  with False f show ?thesis
    by (simp add: waitForNextTime_def Time_ok waitLoop_done)
qed

lemma waitForNextTime_None:
  assumes f: "Frequency w \<noteq> 0"
  shows "waitForNextTime now w p = None \<longleftrightarrow> (\<forall>k. \<not> waited now w p k)"
  using waitForNextTime_Some [OF _ f] waitForNextTime_waited [OF f]
  by (metis option.distinct(1) option.exhaust)

section \<open>Arithmetic of int64\<close>

lemma nonneg_uint: "0 \<le> sint (x::int64) \<Longrightarrow> uint x = sint x"
proof -
  assume a: "0 \<le> sint x"
  have "sint x < 2 ^ 64" using sint_lt [of x] by simp
  with a have "take_bit 64 (sint x) = sint x" by (simp add: take_bit_int_eq_self)
  then show ?thesis using uint_sint [of x] by simp
qed

lemma small_bits:
  assumes "0 \<le> sint (x::int64)" "sint x < 2 ^ n"
  shows "take_bit n x = x"
proof -
  from assms have "take_bit n (uint x) = uint x"
    by (simp add: nonneg_uint take_bit_int_eq_self)
  then show ?thesis
    by (simp add: word_uint_eq_iff unsigned_take_bit_eq)
qed

lemma small_bit_less: "take_bit n (x::int64) = x \<Longrightarrow> bit x k \<Longrightarrow> k < n"
  by (metis bit_take_bit_iff)

lemma sint_small: "0 \<le> k \<Longrightarrow> k < 2 ^ 63 \<Longrightarrow> sint (word_of_int k :: int64) = k"
  by (simp add: sint_sbintrunc' signed_take_bit_int_eq_self)

lemma sint_succ: "sint (x::int64) < 2 ^ 63 - 1 \<Longrightarrow> sint (x + 1) = sint x + 1"
  using sint_ge [of x]
  by (simp add: sint_word_ariths signed_take_bit_int_eq_self)

lemma sint_succ_max: "sint (x::int64) = 2 ^ 63 - 1 \<Longrightarrow> sint (x + 1) = - (2 ^ 63)"
proof -
  assume a: "sint x = 2 ^ 63 - 1"
  have "x = word_of_int (sint x)" by simp
  with a have "x = word_of_int (2 ^ 63 - 1)" by simp
  then show ?thesis by simp
qed

lemma sint_pow2: "n < 63 \<Longrightarrow> sint (2 ^ n :: int64) = 2 ^ n"
proof -
  assume n: "n < 63"
  have "(2::int) ^ n < 2 ^ 63" using n by (intro power_strict_increasing) auto
  then have "sint (word_of_int (2 ^ n) :: int64) = 2 ^ n"
    by (intro sint_small) auto
  then show ?thesis by (simp add: word_of_int_2p)
qed

lemma sint_pow63: "sint (2 ^ 63 :: int64) = - (2 ^ 63)"
  by simp

lemma shl64_one: "shl64 1 s = 2 ^ unat s"
  by (simp add: shl64_def push_bit_eq_mult)

lemma pow2_zero_iff: "(2 ^ n :: int64) = 0 \<longleftrightarrow> 64 \<le> n"
  by simp

lemma abs_sint_pow2: "n < 64 \<Longrightarrow> \<bar>sint (2 ^ n :: int64)\<bar> = 2 ^ n"
proof (cases "n = 63")
  case True
  then show ?thesis by simp
next
  case False
  assume "n < 64"
  with False have "n < 63" by simp
  then show ?thesis by (simp add: sint_pow2)
qed

lemma pow2_dvd_63: "n < 64 \<Longrightarrow> (2::int) ^ 63 mod 2 ^ n = 0"
proof -
  assume "n < 64"
  then have "n \<le> 63" by simp
  then have "(2::int) ^ n dvd 2 ^ 63" by (rule le_imp_power_dvd)
  then show ?thesis by (simp only: mod_eq_0_iff_dvd)
qed

lemma rem64_increment:
  assumes s: "0 \<le> sint (s::int64)" and n: "unat (sb::uint64) < 64"
  shows "sint (rem64 (s + 1) (shl64 1 sb)) = (sint s + 1) mod 2 ^ unat sb"
proof (cases "sint s = 2 ^ 63 - 1")
  case True
  then have "sint (s + 1) = - (2 ^ 63)" by (rule sint_succ_max)
  moreover have "(2::int) ^ 63 mod 2 ^ unat sb = 0" using n by (rule pow2_dvd_63)
  ultimately have "rem64 (s + 1) (shl64 1 sb) = 0"
    using n by (simp only: rem64_def shl64_one signed_modulo_int_def abs_sint_pow2) simp
  moreover have "(sint s + 1) mod 2 ^ unat sb = 0"
    using True \<open>(2::int) ^ 63 mod 2 ^ unat sb = 0\<close> by simp
  ultimately show ?thesis by simp
next
  case False
  with sint_lt [of s] have lt: "sint s < 2 ^ 63 - 1" by simp
  then have x: "sint (s + 1) = sint s + 1" by (rule sint_succ)
  let ?x = "sint s + 1"
  have pos: "0 < ?x" using s by simp
  have "sint (s + 1) smod sint (2 ^ unat sb :: int64) = ?x mod 2 ^ unat sb"
    using pos n by (simp only: x signed_modulo_int_def abs_sint_pow2) simp
  moreover have "0 \<le> ?x mod 2 ^ unat sb" by simp
  moreover have "?x mod 2 ^ unat sb \<le> ?x" using pos by (intro zmod_le_nonneg_dividend) simp
  then have "?x mod 2 ^ unat sb < 2 ^ 63" using lt by simp
  ultimately show ?thesis
    by (simp only: rem64_def shl64_one sint_small)
qed

lemma rem64_range:
  assumes "0 \<le> sint (s::int64)" "unat (sb::uint64) < 64"
  shows "0 \<le> sint (rem64 (s + 1) (shl64 1 sb))"
    and "sint (rem64 (s + 1) (shl64 1 sb)) < 2 ^ unat sb"
  using rem64_increment [OF assms] by simp_all

lemma rem64_nonzero:
  assumes "0 \<le> sint (s::int64)" "sint s < 2 ^ unat (sb::uint64)" "unat sb < 64"
    and "rem64 (s + 1) (shl64 1 sb) \<noteq> 0"
  shows "sint (rem64 (s + 1) (shl64 1 sb)) = sint s + 1"
proof -
  have e: "sint (rem64 (s + 1) (shl64 1 sb)) = (sint s + 1) mod 2 ^ unat sb"
    using assms(1,3) by (rule rem64_increment)
  have "sint s + 1 \<noteq> 2 ^ unat sb"
  proof
    assume "sint s + 1 = 2 ^ unat sb"
    with e have "sint (rem64 (s + 1) (shl64 1 sb)) = 0" by simp
    then have "rem64 (s + 1) (shl64 1 sb) = 0" by (simp add: signed_eq_0_iff)
    with assms(4) show False by simp
  qed
  with assms(2) have "sint s + 1 < 2 ^ unat sb" by simp
  with assms(1) e show ?thesis by simp
qed

lemma quo64_one [simp]: "quo64 x 1 = x"
  by (simp add: quo64_def int_sdiv_simps)

section \<open>The composed id as a number\<close>

lemma low_high_disjoint:
  assumes "take_bit a (z::int64) = z"
  shows "push_bit a (y::int64) OR z = push_bit a y + z"
proof (rule disjunctive_add [symmetric])
  fix n
  show "\<not> bit (push_bit a y) n \<or> \<not> bit z n"
    using small_bit_less [OF assms, of n] by (auto simp: bit_push_bit_iff)
qed

lemma take_bit_low_high:
  assumes "take_bit b (y::int64) = y" "take_bit a (z::int64) = z"
  shows "take_bit (a + b) (push_bit a y OR z) = push_bit a y OR z"
proof (rule bit_word_eqI)
  fix n assume "n < LENGTH(64)"
  show "bit (take_bit (a + b) (push_bit a y OR z)) n = bit (push_bit a y OR z) n"
    using small_bit_less [OF assms(1), of "n - a"] small_bit_less [OF assms(2), of n]
    by (auto simp: bit_simps)
qed

lemma packed_sum:
  assumes y: "take_bit b (y::int64) = y" and z: "take_bit a (z::int64) = z"
  shows "push_bit (a + b) (x::int64) OR push_bit a y OR z = push_bit (a + b) x + push_bit a y + z"
proof -
  have 1: "push_bit (a + b) x OR (push_bit a y OR z) = push_bit (a + b) x + (push_bit a y OR z)"
    by (rule low_high_disjoint) (rule take_bit_low_high [OF y z])
  have 2: "push_bit a y OR z = push_bit a y + z" by (rule low_high_disjoint [OF z])
  show ?thesis unfolding 1 unfolding 2 by (simp add: add.assoc)
qed

lemma fields_bound:
  fixes X Y Z :: int
  assumes "0 \<le> X" "X < 2 ^ c" "0 \<le> Y" "Y < 2 ^ b" "0 \<le> Z" "Z < 2 ^ a"
  shows "0 \<le> X * 2 ^ (a + b) + Y * 2 ^ a + Z"
    and "Y * 2 ^ a + Z < 2 ^ (a + b)"
    and "X * 2 ^ (a + b) + Y * 2 ^ a + Z < 2 ^ (a + b + c)"
proof -
  show "0 \<le> X * 2 ^ (a + b) + Y * 2 ^ a + Z" using assms by simp
  have "(Y + 1) * 2 ^ a \<le> 2 ^ b * 2 ^ a"
    using assms by (intro mult_right_mono) auto
  then show low: "Y * 2 ^ a + Z < 2 ^ (a + b)"
    using assms by (simp add: algebra_simps power_add)
  have "(X + 1) * 2 ^ (a + b) \<le> 2 ^ c * 2 ^ (a + b)"
    using assms by (intro mult_right_mono) auto
  then have "X * 2 ^ (a + b) + 2 ^ (a + b) \<le> 2 ^ (a + b + c)"
    by (simp add: algebra_simps power_add)
  with low show "X * 2 ^ (a + b) + Y * 2 ^ a + Z < 2 ^ (a + b + c)" by linarith
qed

lemma fields_lex:
  fixes X X' Y Z Z' :: int
  assumes "0 \<le> Y" "Y < 2 ^ b" "0 \<le> Z" "Z < 2 ^ a" "0 \<le> Z'" "Z' < 2 ^ a"
    and lex: "X < X' \<or> (X = X' \<and> Z < Z')"
  shows "X * 2 ^ (a + b) + Y * 2 ^ a + Z < X' * 2 ^ (a + b) + Y * 2 ^ a + Z'"
proof (cases "X < X'")
  case True
  then have "(X + 1) * 2 ^ (a + b) \<le> X' * 2 ^ (a + b)"
    by (intro mult_right_mono) auto
  moreover have "Y * 2 ^ a + Z < 2 ^ (a + b)"
    using assms(1-4) fields_bound(2) [of 0 0 Y b Z a] by simp
  moreover have "0 \<le> Y * 2 ^ a + Z'" using assms by simp
  ultimately show ?thesis by (simp add: algebra_simps)
next
  case False
  with lex show ?thesis by simp
qed

lemma sint_packed:
  assumes x: "0 \<le> sint (x::int64)" "sint x < 2 ^ c"
    and y: "0 \<le> sint (y::int64)" "sint y < 2 ^ b"
    and z: "0 \<le> sint (z::int64)" "sint z < 2 ^ a"
    and w: "a + b + c \<le> 63"
  shows "sint (push_bit (a + b) x OR push_bit a y OR z)
           = sint x * 2 ^ (a + b) + sint y * 2 ^ a + sint z"
proof -
  let ?k = "sint x * 2 ^ (a + b) + sint y * 2 ^ a + sint z"
  have "push_bit (a + b) x OR push_bit a y OR z = push_bit (a + b) x + push_bit a y + z"
    using y z by (intro packed_sum small_bits)
  also have "\<dots> = word_of_int ?k"
    by (simp add: push_bit_eq_mult)
  finally have e: "push_bit (a + b) x OR push_bit a y OR z = word_of_int ?k" .
  have "?k < 2 ^ (a + b + c)" using x y z by (intro fields_bound(3))
  also have "(2::int) ^ (a + b + c) \<le> 2 ^ 63" using w by (intro power_increasing) auto
  finally have "?k < 2 ^ 63" .
  moreover have "0 \<le> ?k" using x y z by (intro fields_bound(1))
  ultimately show ?thesis by (simp only: e sint_small)
qed

section \<open>What a call leaves unchanged\<close>

lemma waitForNextTime_frame:
  "waitForNextTime now w p = Some (r, w', p') \<Longrightarrow>
     sameConfig w w' \<and> mutex w' = mutex w \<and> Sequence w' = Sequence w"
  by (auto simp: waitForNextTime_def sameConfig_def split: prod.splits sum.splits option.splits)

lemma driftStep_frame:
  "driftStep now w t p = Some (r, w', p') \<Longrightarrow>
     sameConfig w w' \<and> mutex w' = mutex w \<and> Sequence w' = Sequence w"
  by (auto simp: driftStep_def sameConfig_def dest: waitForNextTime_frame split: if_splits)

lemma sequenceStep_frame:
  assumes "sequenceStep now w t p = Some (r, w', p')"
  shows "sameConfig w w' \<and> mutex w' = mutex w"
proof (cases "LastTimeStamp w = t \<and> shl64 1 (SequenceBits w) \<noteq> 0 \<and>
    rem64 (Sequence w + 1) (shl64 1 (SequenceBits w)) = 0")
  case True
  let ?w1 = "w\<lparr>Sequence := rem64 (Sequence w + 1) (shl64 1 (SequenceBits w))\<rparr>"
  from assms True obtain r' where "waitForNextTime now ?w1 p = Some (r', w', p')"
    by (auto simp: sequenceStep_def Let_def split: option.splits sum.splits)
  then have "sameConfig ?w1 w' \<and> mutex w' = mutex ?w1 \<and> Sequence w' = Sequence ?w1"
    by (rule waitForNextTime_frame)
  then show ?thesis by (simp add: sameConfig_def)
next
  case False
  with assms show ?thesis
    by (auto simp: sequenceStep_def Let_def sameConfig_def split: if_splits)
qed

lemma sameConfig_trans: "sameConfig a b \<Longrightarrow> sameConfig b c \<Longrightarrow> sameConfig a c"
  by (simp add: sameConfig_def)

lemma UnsafeNextID_frame:
  assumes "UnsafeNextID now w p = Some (r, w', p')"
  shows "sameConfig w w' \<and> mutex w' = mutex w"
proof (cases "Frequency w = 0")
  case True
  with assms show ?thesis by (simp add: UnsafeNextID_def Time_def sameConfig_def)
next
  case False
  let ?t = "tick now w p"
  from assms False obtain r1 w1 p1 where d: "driftStep now w ?t (Suc p) = Some (r1, w1, p1)"
    by (auto simp: UnsafeNextID_def Time_ok split: option.splits)
  then have w1: "sameConfig w w1 \<and> mutex w1 = mutex w" using driftStep_frame by blast
  show ?thesis
  proof (cases r1)
    case (Inl e)
    with assms False d w1 show ?thesis
      by (auto simp: UnsafeNextID_def Time_ok)
  next
    case (Inr u)
    with assms False d obtain r2 w2 p2 where s: "sequenceStep now w1 ?t p1 = Some (r2, w2, p2)"
      by (auto simp: UnsafeNextID_def Time_ok split: option.splits)
    then have "sameConfig w1 w2 \<and> mutex w2 = mutex w1" by (rule sequenceStep_frame)
    with w1 have w2: "sameConfig w w2 \<and> mutex w2 = mutex w"
      using sameConfig_trans by auto
    show ?thesis
    proof (cases r2)
      case (Inl e)
      with assms False d s Inr w2 show ?thesis
        by (auto simp: UnsafeNextID_def Time_ok)
    next
      case (Inr t')
      with assms False d s \<open>r1 = Inr u\<close> have "w' = w2\<lparr>LastTimeStamp := t'\<rparr>"
        by (auto simp: UnsafeNextID_def Time_ok Let_def)
      with w2 show ?thesis by (simp add: sameConfig_def)
    qed
  qed
qed

lemma frame_record:
  "sameConfig w w' \<Longrightarrow> mutex w' = mutex w \<Longrightarrow>
     w' = w\<lparr>Sequence := Sequence w', LastTimeStamp := LastTimeStamp w'\<rparr>"
  by (simp add: sameConfig_def)

section \<open>The lock\<close>

lemma Time_cong: "Frequency (w'::Worker) = Frequency w \<Longrightarrow> Time now w' p = Time now w p"
  by (simp add: Time_def)

lemma waitLoop_cong_Some:
  assumes run: "waitLoop now w ts p = Some y"
    and same: "LastTimeStamp (w'::Worker) = LastTimeStamp w" "Frequency w' = Frequency w"
  shows "waitLoop now w' ts p = Some y"
proof -
  let ?P = "\<lambda>now w ts p y. \<forall>w'::Worker. LastTimeStamp w' = LastTimeStamp w \<and> Frequency w' = Frequency w
              \<longrightarrow> waitLoop now w' ts p = Some y"
  have "?P now w ts p y"
  proof (rule waitLoop.raw_induct [where P = ?P, OF _ run])
    fix loop :: "clock \<Rightarrow> Worker \<Rightarrow> int64 \<Rightarrow> nat \<Rightarrow> ((error + int64) \<times> nat) option"
    fix now w ts p y
    assume IH: "\<And>now w ts p y. loop now w ts p = Some y \<Longrightarrow> ?P now w ts p y"
      and body: "(if ts \<le>s LastTimeStamp w then
        (case Time now w p of
           (Inl e, p') \<Rightarrow> Some (Inl e, p')
         | (Inr ts', p') \<Rightarrow> loop now w ts' p')
      else Some (Inr ts, p)) = Some y"
    show "?P now w ts p y"
    proof (intro allI impI)
      fix w' :: Worker assume s: "LastTimeStamp w' = LastTimeStamp w \<and> Frequency w' = Frequency w"

      show "waitLoop now w' ts p = Some y"
      proof (cases "ts \<le>s LastTimeStamp w")
        case False
        with body s show ?thesis by (simp add: waitLoop_done)
      next
        case True
        then have le': "ts \<le>s LastTimeStamp w'" using s by simp
        show ?thesis
        proof (cases "Frequency w = 0")
          case True
          with body \<open>ts \<le>s LastTimeStamp w\<close> have "y = (Inl DivideByZero, Suc p)"
            by (simp add: Time_def)
          moreover from True s le' have "waitLoop now w' ts p = Some (Inl DivideByZero, Suc p)"
            by (subst waitLoop.simps) (simp add: Time_def)
          ultimately show ?thesis by simp
        next
          case False
          with body True have "loop now w (tick now w p) (Suc p) = Some y"
            by (simp add: Time_ok)
          from IH [OF this] s have "waitLoop now w' (tick now w p) (Suc p) = Some y" by blast
          moreover have "tick now w' p = tick now w p" using s by (simp add: tick_def)
          moreover have "waitLoop now w' ts p = waitLoop now w' (tick now w' p) (Suc p)"
            using False s le' by (intro waitLoop_step) auto
          ultimately show ?thesis by simp
        qed
      qed
    qed
  qed
  with same show ?thesis by blast
qed

lemma waitLoop_cong:
  assumes "LastTimeStamp (w'::Worker) = LastTimeStamp w" "Frequency w' = Frequency w"
  shows "waitLoop now w' ts p = waitLoop now w ts p"
proof (cases "waitLoop now w ts p")
  case (Some y)
  then have "waitLoop now w' ts p = Some y" using assms by (rule waitLoop_cong_Some)
  with Some show ?thesis by simp
next
  case None
  show ?thesis
  proof (cases "waitLoop now w' ts p")
    case None
    with \<open>waitLoop now w ts p = None\<close> show ?thesis by simp
  next
    case (Some y)
    then have "waitLoop now w ts p = Some y"
      by (rule waitLoop_cong_Some) (simp_all add: assms)
    with None show ?thesis by simp
  qed
qed

lemma waitForNextTime_mutex:
  "waitForNextTime now (w\<lparr>mutex := b\<rparr>) p =
     map_option (\<lambda>(r, w', p'). (r, w'\<lparr>mutex := b\<rparr>, p')) (waitForNextTime now w p)"
proof -
  have "waitLoop now (w\<lparr>mutex := b\<rparr>) ts q = waitLoop now w ts q" for ts q
    by (rule waitLoop_cong) simp_all
  moreover have "Time now (w\<lparr>mutex := b\<rparr>) p = Time now w p" by (simp add: Time_def)
  ultimately show ?thesis
    by (simp add: waitForNextTime_def split: prod.splits sum.splits option.splits)
qed

lemma driftStep_mutex:
  "driftStep now (w\<lparr>mutex := b\<rparr>) t p =
     map_option (\<lambda>(r, w', p'). (r, w'\<lparr>mutex := b\<rparr>, p')) (driftStep now w t p)"
  by (simp add: driftStep_def waitForNextTime_mutex)

lemma update_commute:
  "w\<lparr>Sequence := s, mutex := b\<rparr> = w\<lparr>mutex := b, Sequence := s\<rparr>"
  by (cases w) simp

lemma sequenceStep_mutex:
  "sequenceStep now (w\<lparr>mutex := b\<rparr>) t p =
     map_option (\<lambda>(r, w', p'). (r, w'\<lparr>mutex := b\<rparr>, p')) (sequenceStep now w t p)"
proof (cases "LastTimeStamp w = t \<and> shl64 1 (SequenceBits w) \<noteq> 0 \<and>
    rem64 (Sequence w + 1) (shl64 1 (SequenceBits w)) = 0")
  case True
  have W: "waitForNextTime now (w\<lparr>mutex := b, Sequence := 0\<rparr>) p =
     map_option (\<lambda>(r, w', p'). (r, w'\<lparr>mutex := b\<rparr>, p')) (waitForNextTime now (w\<lparr>Sequence := 0\<rparr>) p)"
    using waitForNextTime_mutex [where w = "w\<lparr>Sequence := 0\<rparr>" and b = b and p = p and now = now]
    by (simp only: update_commute)
  show ?thesis
  proof (cases "waitForNextTime now (w\<lparr>Sequence := 0\<rparr>) p")
    case None
    with W True show ?thesis by (simp add: sequenceStep_def Let_def)
  next
    case (Some y)
    obtain r w' p' where "y = (r, w', p')" by (cases y)
    with Some W True show ?thesis by (cases r) (simp_all add: sequenceStep_def Let_def)
  qed
next
  case False
  then show ?thesis
    by (auto simp: sequenceStep_def Let_def update_commute)
qed

lemma UnsafeNextID_mutex:
  "UnsafeNextID now (w\<lparr>mutex := b\<rparr>) p =
     map_option (\<lambda>(r, w', p'). (r, w'\<lparr>mutex := b\<rparr>, p')) (UnsafeNextID now w p)"
proof (cases "Frequency w = 0")
  case True
  then show ?thesis by (simp add: UnsafeNextID_def Time_def)
next
  case False
  then have T: "Time now (w\<lparr>mutex := b\<rparr>) p = (Inr (tick now w p), Suc p)"
    "Time now w p = (Inr (tick now w p), Suc p)"
    by (simp_all add: Time_def tick_def)
  let ?t = "tick now w p"
  show ?thesis
  proof (cases "driftStep now w ?t (Suc p)")
    case None
    then show ?thesis by (simp add: UnsafeNextID_def T driftStep_mutex)
  next
    case (Some y)
    obtain r1 w1 p1 where y: "y = (r1, w1, p1)" by (cases y)
    show ?thesis
    proof (cases r1)
      case (Inl e)
      with Some y show ?thesis by (simp add: UnsafeNextID_def T driftStep_mutex)
    next
      case (Inr u)
      show ?thesis
      proof (cases "sequenceStep now w1 ?t p1")
        case None
        with Some y Inr show ?thesis
          by (simp add: UnsafeNextID_def T driftStep_mutex sequenceStep_mutex)
      next
        case (Some z)
        obtain r2 w2 p2 where z: "z = (r2, w2, p2)" by (cases z)
        with Some \<open>driftStep now w ?t (Suc p) = Some y\<close> y Inr show ?thesis
          by (cases r2)
            (simp_all add: UnsafeNextID_def T driftStep_mutex sequenceStep_mutex
              composeID_def Let_def)
      qed
    qed
  qed
qed

lemma NextID_unlocked:
  assumes "\<not> mutex w"
  shows "NextID now w p = UnsafeNextID now w p"
proof (cases "UnsafeNextID now w p")
  case None
  with assms show ?thesis by (simp add: NextID_def Lock_def UnsafeNextID_mutex)
next
  case (Some y)
  obtain r w' p' where y: "y = (r, w', p')" by (cases y)
  with Some have "sameConfig w w' \<and> mutex w' = mutex w" by (intro UnsafeNextID_frame) simp
  with assms have "w'\<lparr>mutex := False\<rparr> = w'" by simp
  with assms Some y show ?thesis
    by (simp add: NextID_def Lock_def Unlock_def UnsafeNextID_mutex)
qed

lemma NextID_releases:
  assumes "NextID now w p = Some (r, w', p')"
  shows "\<not> mutex w'"
  using assms
  by (auto simp: NextID_def Lock_def Unlock_def split: if_splits option.splits sum.splits)

section \<open>The branches of UnsafeNextID\<close>

lemma waited_Sequence [simp]: "waited now (w\<lparr>Sequence := s\<rparr>) p k = waited now w p k"
  by (simp add: waited_def tick_def)

lemma tick_Sequence [simp]: "tick now (w\<lparr>Sequence := s\<rparr>) k = tick now w k"
  by (simp add: tick_def)

lemma tick_LastTimeStamp [simp]: "tick now (w\<lparr>LastTimeStamp := t\<rparr>) k = tick now w k"
  by (simp add: tick_def)

text \<open>A later tick: the sequence starts again at 0.\<close>

lemma UnsafeNextID_new_tick:
  assumes "Frequency w \<noteq> 0" "LastTimeStamp w <s tick now w p"
  shows "UnsafeNextID now w p =
     Some (Inr (composeID (w\<lparr>Sequence := 0, LastTimeStamp := tick now w p\<rparr>) (tick now w p)),
           w\<lparr>Sequence := 0, LastTimeStamp := tick now w p\<rparr>, Suc p)"
proof -
  from assms(2) have "\<not> tick now w p <s LastTimeStamp w" "LastTimeStamp w \<noteq> tick now w p"
    by (auto simp: signed.less_asym)
  with assms(1) show ?thesis
    by (simp add: UnsafeNextID_def Time_ok driftStep_def sequenceStep_def Let_def)
qed

text \<open>The same tick, the sequence not exhausted.\<close>

lemma UnsafeNextID_same_tick:
  assumes "Frequency w \<noteq> 0" "LastTimeStamp w = tick now w p"
    and "shl64 1 (SequenceBits w) \<noteq> 0"
    and "rem64 (Sequence w + 1) (shl64 1 (SequenceBits w)) = s" "s \<noteq> 0"
  shows "UnsafeNextID now w p =
     Some (Inr (composeID (w\<lparr>Sequence := s\<rparr>) (tick now w p)), w\<lparr>Sequence := s\<rparr>, Suc p)"
proof -
  have "w\<lparr>Sequence := s, LastTimeStamp := tick now w p\<rparr> = w\<lparr>Sequence := s\<rparr>"
    using assms(2) by (cases w) simp
  with assms show ?thesis
    by (simp add: UnsafeNextID_def Time_ok driftStep_def sequenceStep_def Let_def composeID_def)
qed

text \<open>The same tick, the sequence exhausted: the call waits for the next tick.\<close>

lemma UnsafeNextID_exhausted:
  assumes f: "Frequency w \<noteq> 0" and t: "LastTimeStamp w = tick now w p"
    and m: "shl64 1 (SequenceBits w) \<noteq> 0"
    and z: "rem64 (Sequence w + 1) (shl64 1 (SequenceBits w)) = 0"
    and k: "waited now w (Suc p) k"
  shows "UnsafeNextID now w p =
     Some (Inr (composeID (w\<lparr>Sequence := 0, LastTimeStamp := tick now w k\<rparr>) (tick now w k)),
           w\<lparr>Sequence := 0, LastTimeStamp := tick now w k\<rparr>, Suc k)"
proof -
  have "waitForNextTime now (w\<lparr>Sequence := 0\<rparr>) (Suc p) =
      Some (Inr (), w\<lparr>Sequence := 0, LastTimeStamp := tick now w k\<rparr>, Suc k)"
    using waitForNextTime_waited [of "w\<lparr>Sequence := 0\<rparr>" now "Suc p" k] f k by simp
  with f t m z show ?thesis
    by (simp add: UnsafeNextID_def Time_ok driftStep_def sequenceStep_def Let_def)
qed

lemma UnsafeNextID_exhausted_forever:
  assumes f: "Frequency w \<noteq> 0" and t: "LastTimeStamp w = tick now w p"
    and m: "shl64 1 (SequenceBits w) \<noteq> 0"
    and z: "rem64 (Sequence w + 1) (shl64 1 (SequenceBits w)) = 0"
    and k: "\<forall>k. \<not> waited now w (Suc p) k"
  shows "UnsafeNextID now w p = None"
proof -
  have "waitForNextTime now (w\<lparr>Sequence := 0\<rparr>) (Suc p) = None"
    using waitForNextTime_None [of "w\<lparr>Sequence := 0\<rparr>" now "Suc p"] f k by simp
  with f t m z show ?thesis
    by (simp add: UnsafeNextID_def Time_ok driftStep_def sequenceStep_def Let_def)
qed

text \<open>
  The clock behind the recorded tick: the call waits until a read \<open>k\<close> is past the
  recorded tick, and then goes on with the tick it read first.
\<close>

lemma UnsafeNextID_drift:
  assumes f: "Frequency w \<noteq> 0" and t: "tick now w p <s LastTimeStamp w"
    and k: "waited now w (Suc p) k"
  shows "UnsafeNextID now w p =
     Some (Inr (composeID (w\<lparr>Sequence := 0, LastTimeStamp := tick now w p\<rparr>) (tick now w p)),
           w\<lparr>Sequence := 0, LastTimeStamp := tick now w p\<rparr>, Suc k)"
proof -
  have w: "waitForNextTime now w (Suc p) =
      Some (Inr (), w\<lparr>LastTimeStamp := tick now w k\<rparr>, Suc k)"
    using f k by (rule waitForNextTime_waited)
  from k have "LastTimeStamp w <s tick now w k" by (simp add: waited_def)
  with t have "tick now w p <s tick now w k" by (rule signed.less_trans)
  then have ne: "tick now w k \<noteq> tick now w p" by auto
  from f t w ne show ?thesis
    by (simp add: UnsafeNextID_def Time_ok driftStep_def sequenceStep_def Let_def)
qed

lemma UnsafeNextID_drift_forever:
  assumes f: "Frequency w \<noteq> 0" and t: "tick now w p <s LastTimeStamp w"
    and k: "\<forall>k. \<not> waited now w (Suc p) k"
  shows "UnsafeNextID now w p = None"
proof -
  have "waitForNextTime now w (Suc p) = None"
    using waitForNextTime_None [OF f] k by simp
  with f t show ?thesis
    by (simp add: UnsafeNextID_def Time_ok driftStep_def)
qed

section \<open>The example run\<close>

lemma quo64_numeral [simp]: "quo64 1000 10 = 100" "quo64 1020 10 = 102"
  by (simp_all add: quo64_def signed_divide_int_def)

lemma exampleClock_tick:
  "tick exampleClock exampleWorker k = (if k < 4 then 100 else 102)"
  by (simp add: tick_def exampleClock_def exampleWorker_def)

lemma example_NewWorker: "NewWorker exampleClock 1 100 1 1 3 10 0 = Inr (exampleWorker, Suc 0)"
  by (simp add: NewWorker_def Time_def exampleClock_def exampleWorker_def Let_def)

lemma example_tick_simps [simp]:
  "tick exampleClock (exampleWorker\<lparr>Sequence := s\<rparr>) k = (if k < 4 then 100 else 102)"
  "tick exampleClock (exampleWorker\<lparr>Sequence := s, LastTimeStamp := t\<rparr>) k = (if k < 4 then 100 else 102)"
  "tick exampleClock exampleWorker k = (if k < 4 then 100 else 102)"
  by (simp_all add: exampleClock_tick)

lemma rem64_example [simp]: "rem64 1 2 = 1" "rem64 2 2 = 0"
  by (simp_all add: rem64_def signed_modulo_int_def)

lemma example_call_1:
  "UnsafeNextID exampleClock exampleWorker (Suc 0)
     = Some (Inr 3, exampleWorker\<lparr>Sequence := 1\<rparr>, Suc (Suc 0))"
proof -
  have "UnsafeNextID exampleClock exampleWorker (Suc 0) =
     Some (Inr (composeID (exampleWorker\<lparr>Sequence := 1\<rparr>) (tick exampleClock exampleWorker (Suc 0))),
           exampleWorker\<lparr>Sequence := 1\<rparr>, Suc (Suc 0))"
    by (rule UnsafeNextID_same_tick) (simp_all add: exampleWorker_def shl64_def tick_def exampleClock_def)
  then show ?thesis by (simp add: composeID_def shl64_def exampleWorker_def tick_def exampleClock_def)
qed

lemma example_call_2:
  "UnsafeNextID exampleClock (exampleWorker\<lparr>Sequence := 1\<rparr>) (Suc (Suc 0))
     = Some (Inr 10, exampleWorker\<lparr>Sequence := 0, LastTimeStamp := 102\<rparr>, 5)"
proof -
  let ?w = "exampleWorker\<lparr>Sequence := 1\<rparr>"
  have k: "waited exampleClock ?w (Suc (Suc (Suc 0))) 4"
    by (auto simp: waited_def exampleWorker_def tick_def exampleClock_def)
  have "UnsafeNextID exampleClock ?w (Suc (Suc 0)) =
     Some (Inr (composeID (?w\<lparr>Sequence := 0, LastTimeStamp := tick exampleClock ?w 4\<rparr>)
                  (tick exampleClock ?w 4)),
           ?w\<lparr>Sequence := 0, LastTimeStamp := tick exampleClock ?w 4\<rparr>, Suc 4)"
    by (rule UnsafeNextID_exhausted [OF _ _ _ _ k])
       (simp_all add: exampleWorker_def shl64_def tick_def exampleClock_def)
  then show ?thesis by (simp add: composeID_def shl64_def exampleWorker_def tick_def exampleClock_def)
qed

lemma example_call_3:
  "UnsafeNextID exampleClock (exampleWorker\<lparr>Sequence := 0, LastTimeStamp := 102\<rparr>) 5
     = Some (Inr 11, exampleWorker\<lparr>Sequence := 1, LastTimeStamp := 102\<rparr>, 6)"
proof -
  let ?w = "exampleWorker\<lparr>Sequence := 0, LastTimeStamp := 102\<rparr>"
  have "UnsafeNextID exampleClock ?w 5 =
     Some (Inr (composeID (?w\<lparr>Sequence := 1\<rparr>) (tick exampleClock ?w 5)),
           ?w\<lparr>Sequence := 1\<rparr>, Suc 5)"
    by (rule UnsafeNextID_same_tick) (simp_all add: exampleWorker_def shl64_def tick_def exampleClock_def)
  then show ?thesis by (simp add: composeID_def shl64_def exampleWorker_def tick_def exampleClock_def)
qed

lemma example_calls:
  "calls (UnsafeNextID exampleClock) (Suc (Suc (Suc 0))) exampleWorker (Suc 0)
     = Some (Inr [3, 10, 11], exampleWorker\<lparr>Sequence := 1, LastTimeStamp := 102\<rparr>, 6)"
  by (simp add: example_call_1 example_call_2 example_call_3)

section \<open>Construction\<close>

lemma unat_sum_no_overflow:
  assumes "unat (a::uint64) + unat (b::uint64) + unat (c::uint64) + 1 < 2 ^ 64"
  shows "unat (a + b + c + 1) = unat a + unat b + unat c + 1"
proof -
  have "unat (a + b + c + 1) = (unat a + unat b + unat c + 1) mod 2 ^ 64"
    by (simp add: unat_word_ariths mod_simps)
  with assms show ?thesis by simp
qed

text \<open>
  C6. \<open>NewWorker\<close> ends in the fatal configuration error exactly when
  \<open>idBits + sequenceBits + timestampBits + 1\<close> is not divisible by 6. The sum is the
  \<^verbatim>\<open>uint64\<close> sum of line 28; it is the sum of the widths as natural numbers whenever
  that is below \<open>2 ^ 64\<close>. The widths 5, 13, 40 end in the fatal error; the widths
  5, 13, 41 pass the check, and with a tick duration other than zero the Worker is
  returned.
\<close>

theorem NewWorker_validation:
  "(NewWorker now id' epoch idBits sequenceBits timestampBits frequency p = Inl FatalConfig
      \<longleftrightarrow> \<not> 6 dvd unat (idBits + sequenceBits + timestampBits + 1))
   \<and> (unat idBits + unat sequenceBits + unat timestampBits + 1 < 2 ^ 64 \<longrightarrow>
        (NewWorker now id' epoch idBits sequenceBits timestampBits frequency p = Inl FatalConfig
           \<longleftrightarrow> \<not> 6 dvd (unat idBits + unat sequenceBits + unat timestampBits + 1)))
   \<and> NewWorker now id' epoch 5 13 40 frequency p = Inl FatalConfig
   \<and> (frequency \<noteq> 0 \<longrightarrow>
        (\<exists>w. NewWorker now id' epoch 5 13 41 frequency p = Inr (w, Suc p)
           \<and> ID w = id' \<and> CustomEpoch w = epoch \<and> Frequency w = frequency
           \<and> IDBits w = 5 \<and> SequenceBits w = 13 \<and> TimeStampBits w = 41 \<and> TotalBits w = 60))"
proof -
  have iff: "NewWorker now id' epoch idBits sequenceBits timestampBits frequency p = Inl FatalConfig
      \<longleftrightarrow> \<not> 6 dvd unat (idBits + sequenceBits + timestampBits + 1)"
    by (auto simp: NewWorker_def Time_def Let_def dvd_eq_mod_eq_0)
  moreover have "unat idBits + unat sequenceBits + unat timestampBits + 1 < 2 ^ 64 \<longrightarrow>
        (NewWorker now id' epoch idBits sequenceBits timestampBits frequency p = Inl FatalConfig
           \<longleftrightarrow> \<not> 6 dvd (unat idBits + unat sequenceBits + unat timestampBits + 1))"
  proof
    assume "unat idBits + unat sequenceBits + unat timestampBits + 1 < 2 ^ 64"
    then have "unat (idBits + sequenceBits + timestampBits + 1)
        = unat idBits + unat sequenceBits + unat timestampBits + 1"
      by (rule unat_sum_no_overflow)
    with iff show "NewWorker now id' epoch idBits sequenceBits timestampBits frequency p = Inl FatalConfig
           \<longleftrightarrow> \<not> 6 dvd (unat idBits + unat sequenceBits + unat timestampBits + 1)"
      by (simp only:)
  qed
  moreover have "NewWorker now id' epoch 5 13 40 frequency p = Inl FatalConfig"
    by (simp add: NewWorker_def Let_def)
  moreover have "frequency \<noteq> 0 \<longrightarrow>
        (\<exists>w. NewWorker now id' epoch 5 13 41 frequency p = Inr (w, Suc p)
           \<and> ID w = id' \<and> CustomEpoch w = epoch \<and> Frequency w = frequency
           \<and> IDBits w = 5 \<and> SequenceBits w = 13 \<and> TimeStampBits w = 41 \<and> TotalBits w = 60)"
    by (simp add: NewWorker_def Let_def Time_def)
  ultimately show ?thesis by blast
qed

theorem NewWorker_validation_witness:
  "(1000000 :: int64) \<noteq> 0 \<and> (unat (5::uint64) + unat (13::uint64) + unat (41::uint64) + 1 < 2 ^ 64) \<and>
   (\<exists>w. TenLengthWorker exampleClock 0 = Inr (w, Suc 0) \<and> TotalBits w = 60)"
  using NewWorker_validation [of exampleClock 0 1451606400000 5 13 41 1000000 0]
  by (auto simp: TenLengthWorker_def)

section \<open>The display string\<close>

text \<open>
  C9. \<open>IDString\<close> has no failure result: whatever encoder it is given, it returns
  the string component of the encoder's result and drops the error, also when the
  encoder reports one.
\<close>

theorem IDString_discards_error:
  "IDString IntToString w id' = fst (IntToString id' (TotalBits w))
   \<and> IDString (\<lambda>i bits. (str, Some err)) w id' = str"
  by (simp add: IDString_def split: prod.splits)

section \<open>The frame of id generation\<close>

text \<open>
  C10. On every exit of \<open>UnsafeNextID\<close> and of \<open>NextID\<close>, by a return or by a panic,
  the nine configuration fields are as they were at the call; the Worker differs
  from the one at the call in \<open>Sequence\<close> and \<open>LastTimeStamp\<close> at most.
\<close>

theorem generation_keeps_configuration:
  "(UnsafeNextID now w p = Some (r, w', p') \<longrightarrow>
      sameConfig w w' \<and> w' = w\<lparr>Sequence := Sequence w', LastTimeStamp := LastTimeStamp w'\<rparr>)
   \<and> (NextID now w p = Some (r, w', p') \<longrightarrow>
      sameConfig w w' \<and> w' = w\<lparr>Sequence := Sequence w', LastTimeStamp := LastTimeStamp w'\<rparr>)"
proof (intro conjI impI)
  assume u: "UnsafeNextID now w p = Some (r, w', p')"
  then have f: "sameConfig w w' \<and> mutex w' = mutex w" by (rule UnsafeNextID_frame)
  then show "sameConfig w w'" by simp
  from f show "w' = w\<lparr>Sequence := Sequence w', LastTimeStamp := LastTimeStamp w'\<rparr>"
    by (simp add: frame_record)
next
  assume n: "NextID now w p = Some (r, w', p')"
  then have m: "\<not> mutex w" by (auto simp: NextID_def Lock_def split: if_splits)
  with n have "UnsafeNextID now w p = Some (r, w', p')" by (simp add: NextID_unlocked)
  then have f: "sameConfig w w' \<and> mutex w' = mutex w" by (rule UnsafeNextID_frame)
  then show "sameConfig w w'" by simp
  from f show "w' = w\<lparr>Sequence := Sequence w', LastTimeStamp := LastTimeStamp w'\<rparr>"
    by (simp add: frame_record)
qed

theorem generation_keeps_configuration_witness:
  "UnsafeNextID exampleClock (exampleWorker\<lparr>Sequence := 1\<rparr>) (Suc (Suc 0))
     = Some (Inr 10, exampleWorker\<lparr>Sequence := 0, LastTimeStamp := 102\<rparr>, 5)
   \<and> NextID exampleClock (exampleWorker\<lparr>Sequence := 1\<rparr>) (Suc (Suc 0))
     = Some (Inr 10, exampleWorker\<lparr>Sequence := 0, LastTimeStamp := 102\<rparr>, 5)
   \<and> sameConfig (exampleWorker\<lparr>Sequence := 1\<rparr>)
        (exampleWorker\<lparr>Sequence := 0, LastTimeStamp := 102\<rparr>)"
proof -
  have u: "UnsafeNextID exampleClock (exampleWorker\<lparr>Sequence := 1\<rparr>) (Suc (Suc 0))
     = Some (Inr 10, exampleWorker\<lparr>Sequence := 0, LastTimeStamp := 102\<rparr>, 5)"
    by (rule example_call_2)
  have "\<not> mutex (exampleWorker\<lparr>Sequence := 1\<rparr>)" by (simp add: exampleWorker_def)
  then have n: "NextID exampleClock (exampleWorker\<lparr>Sequence := 1\<rparr>) (Suc (Suc 0))
     = Some (Inr 10, exampleWorker\<lparr>Sequence := 0, LastTimeStamp := 102\<rparr>, 5)"
    using NextID_unlocked [of "exampleWorker\<lparr>Sequence := 1\<rparr>" exampleClock "Suc (Suc 0)"] u
    by simp
  from u n generation_keeps_configuration [of exampleClock "exampleWorker\<lparr>Sequence := 1\<rparr>"
      "Suc (Suc 0)" "Inr 10" "exampleWorker\<lparr>Sequence := 0, LastTimeStamp := 102\<rparr>" 5]
  show ?thesis by blast
qed

section \<open>The safe variant\<close>

text \<open>
  C8. Called with the mutex free, \<open>NextID\<close> is \<open>UnsafeNextID\<close> run with the mutex
  held: from the same Worker and the same clock reads it has the same outcome, the
  same id and the same final Worker and clock position, or it never returns when
  \<open>UnsafeNextID\<close> does not. On every exit of \<open>NextID\<close>, return or panic, the mutex
  is free again. Called with the mutex held, \<open>NextID\<close> blocks.
\<close>

theorem NextID_is_UnsafeNextID_under_lock:
  "(\<not> mutex w \<longrightarrow>
      NextID now w p = UnsafeNextID now w p
      \<and> NextID now w p =
          map_option (\<lambda>(r, w', p'). (r, w'\<lparr>mutex := False\<rparr>, p'))
            (UnsafeNextID now (w\<lparr>mutex := True\<rparr>) p))
   \<and> (NextID now w p = Some (r, w', p') \<longrightarrow> \<not> mutex w')
   \<and> (mutex w \<longrightarrow> NextID now w p = None)"
proof (intro conjI impI)
  assume m: "\<not> mutex w"
  then show "NextID now w p = UnsafeNextID now w p" by (rule NextID_unlocked)
  show "NextID now w p =
          map_option (\<lambda>(r, w', p'). (r, w'\<lparr>mutex := False\<rparr>, p'))
            (UnsafeNextID now (w\<lparr>mutex := True\<rparr>) p)"
  proof (cases "UnsafeNextID now (w\<lparr>mutex := True\<rparr>) p")
    case None
    with m show ?thesis by (simp add: NextID_def Lock_def)
  next
    case (Some y)
    obtain r1 w1 p1 where y: "y = (r1, w1, p1)" by (cases y)
    with Some have "sameConfig (w\<lparr>mutex := True\<rparr>) w1 \<and> mutex w1 = mutex (w\<lparr>mutex := True\<rparr>)"
      by (intro UnsafeNextID_frame) simp
    then have "mutex w1" by simp
    with m Some y show ?thesis by (simp add: NextID_def Lock_def Unlock_def)
  qed
next
  assume "NextID now w p = Some (r, w', p')"
  then show "\<not> mutex w'" by (rule NextID_releases)
next
  assume "mutex w"
  then show "NextID now w p = None" by (simp add: NextID_def Lock_def)
qed

theorem NextID_is_UnsafeNextID_under_lock_witness:
  "\<not> mutex (exampleWorker\<lparr>Sequence := 1\<rparr>)
   \<and> NextID exampleClock (exampleWorker\<lparr>Sequence := 1\<rparr>) (Suc (Suc 0))
       = UnsafeNextID exampleClock (exampleWorker\<lparr>Sequence := 1\<rparr>) (Suc (Suc 0))
   \<and> NextID exampleClock (exampleWorker\<lparr>Sequence := 1\<rparr>) (Suc (Suc 0))
       = Some (Inr 10, exampleWorker\<lparr>Sequence := 0, LastTimeStamp := 102\<rparr>, 5)
   \<and> \<not> mutex (exampleWorker\<lparr>Sequence := 0, LastTimeStamp := 102\<rparr>)
   \<and> mutex (exampleWorker\<lparr>mutex := True\<rparr>)
   \<and> NextID exampleClock (exampleWorker\<lparr>mutex := True\<rparr>) (Suc 0) = None"
proof -
  have m: "\<not> mutex (exampleWorker\<lparr>Sequence := 1\<rparr>)" by (simp add: exampleWorker_def)
  note t = NextID_is_UnsafeNextID_under_lock [of "exampleWorker\<lparr>Sequence := 1\<rparr>" exampleClock
      "Suc (Suc 0)" "Inr 10" "exampleWorker\<lparr>Sequence := 0, LastTimeStamp := 102\<rparr>" 5]
  from t m have e: "NextID exampleClock (exampleWorker\<lparr>Sequence := 1\<rparr>) (Suc (Suc 0))
       = UnsafeNextID exampleClock (exampleWorker\<lparr>Sequence := 1\<rparr>) (Suc (Suc 0))" by blast
  then have r: "NextID exampleClock (exampleWorker\<lparr>Sequence := 1\<rparr>) (Suc (Suc 0))
       = Some (Inr 10, exampleWorker\<lparr>Sequence := 0, LastTimeStamp := 102\<rparr>, 5)"
    by (simp only: example_call_2)
  with t have "\<not> mutex (exampleWorker\<lparr>Sequence := 0, LastTimeStamp := 102\<rparr>)" by blast
  moreover have l: "mutex (exampleWorker\<lparr>mutex := True\<rparr>)" by simp
  moreover have "NextID exampleClock (exampleWorker\<lparr>mutex := True\<rparr>) (Suc 0) = None"
    using NextID_is_UnsafeNextID_under_lock [of "exampleWorker\<lparr>mutex := True\<rparr>" exampleClock "Suc 0"] l
    by blast
  ultimately show ?thesis using m e r by blast
qed

section \<open>What a returning call has done\<close>

lemma sequenceStep_Sequence:
  assumes "sequenceStep now w t p = Some (Inr t', w', p')"
  shows "Sequence w' = 0 \<or>
    (shl64 1 (SequenceBits w) \<noteq> 0 \<and> Sequence w' = rem64 (Sequence w + 1) (shl64 1 (SequenceBits w)))"
proof (cases "LastTimeStamp w = t \<and> shl64 1 (SequenceBits w) \<noteq> 0 \<and>
    rem64 (Sequence w + 1) (shl64 1 (SequenceBits w)) = 0")
  case True
  let ?w1 = "w\<lparr>Sequence := rem64 (Sequence w + 1) (shl64 1 (SequenceBits w))\<rparr>"
  from assms True obtain r' where "waitForNextTime now ?w1 p = Some (r', w', p')"
    by (auto simp: sequenceStep_def Let_def split: option.splits sum.splits)
  then have "Sequence w' = Sequence ?w1" using waitForNextTime_frame by blast
  with True show ?thesis by simp
next
  case False
  with assms show ?thesis
    by (auto simp: sequenceStep_def Let_def split: if_splits)
qed

lemma sequenceStep_LastTimeStamp:
  assumes "sequenceStep now w t p = Some (Inr t', w', p')"
  shows "t' = t \<or> t' = LastTimeStamp w'"
  using assms
  by (auto simp: sequenceStep_def Let_def split: if_splits option.splits sum.splits)

lemma UnsafeNextID_Inr:
  assumes "UnsafeNextID now w p = Some (Inr i, w', p')"
  shows "i = composeID w' (LastTimeStamp w')"
    and "Frequency w \<noteq> 0"
    and "Sequence w' = 0 \<or>
      (shl64 1 (SequenceBits w) \<noteq> 0 \<and> Sequence w' = rem64 (Sequence w + 1) (shl64 1 (SequenceBits w)))"
proof -
  show f: "Frequency w \<noteq> 0"
    using assms by (auto simp: UnsafeNextID_def Time_def)
  let ?t = "tick now w p"
  from assms f obtain r1 w1 p1 where d: "driftStep now w ?t (Suc p) = Some (r1, w1, p1)"
    by (auto simp: UnsafeNextID_def Time_ok split: option.splits)
  from assms f d obtain u where r1: "r1 = Inr u"
    by (cases r1) (auto simp: UnsafeNextID_def Time_ok)
  from d have w1: "sameConfig w w1 \<and> mutex w1 = mutex w \<and> Sequence w1 = Sequence w"
    by (rule driftStep_frame)
  from assms f d r1 obtain r2 w2 p2 where s: "sequenceStep now w1 ?t p1 = Some (r2, w2, p2)"
    by (auto simp: UnsafeNextID_def Time_ok split: option.splits)
  from assms f d r1 s obtain t' where r2: "r2 = Inr t'"
    by (cases r2) (auto simp: UnsafeNextID_def Time_ok)
  from assms f d r1 s r2 have res: "w' = w2\<lparr>LastTimeStamp := t'\<rparr>" "i = composeID (w2\<lparr>LastTimeStamp := t'\<rparr>) t'"
    by (auto simp: UnsafeNextID_def Time_ok Let_def)
  then show "i = composeID w' (LastTimeStamp w')" by simp
  from s r2 have "Sequence w2 = 0 \<or>
    (shl64 1 (SequenceBits w1) \<noteq> 0 \<and> Sequence w2 = rem64 (Sequence w1 + 1) (shl64 1 (SequenceBits w1)))"
    using sequenceStep_Sequence by blast
  moreover from w1 have "SequenceBits w1 = SequenceBits w" "Sequence w1 = Sequence w"
    by (simp_all add: sameConfig_def)
  ultimately show "Sequence w' = 0 \<or>
      (shl64 1 (SequenceBits w) \<noteq> 0 \<and> Sequence w' = rem64 (Sequence w + 1) (shl64 1 (SequenceBits w)))"
    using res by simp
qed

lemma UnsafeNextID_sequenceInRange:
  assumes "UnsafeNextID now w p = Some (Inr i, w', p')" and "0 \<le> sint (Sequence w)"
  shows "sequenceInRange w'"
proof -
  have sb: "SequenceBits w' = SequenceBits w"
    using UnsafeNextID_frame [OF assms(1)] by (simp add: sameConfig_def)
  from UnsafeNextID_Inr(3) [OF assms(1)] show ?thesis
  proof
    assume "Sequence w' = 0"
    then show ?thesis by (simp add: sequenceInRange_def)
  next
    assume a: "shl64 1 (SequenceBits w) \<noteq> 0 \<and>
      Sequence w' = rem64 (Sequence w + 1) (shl64 1 (SequenceBits w))"
    then have "unat (SequenceBits w) < 64" by (simp add: shl64_one not_le [symmetric])
    with assms(2) have "0 \<le> sint (rem64 (Sequence w + 1) (shl64 1 (SequenceBits w)))"
      "sint (rem64 (Sequence w + 1) (shl64 1 (SequenceBits w))) < 2 ^ unat (SequenceBits w)"
      by (rule rem64_range)+
    with a sb show ?thesis by (simp add: sequenceInRange_def)
  qed
qed

lemma NextID_Some:
  assumes "NextID now w p = Some y"
  shows "UnsafeNextID now w p = Some y"
proof -
  from assms have "\<not> mutex w" by (auto simp: NextID_def Lock_def split: if_splits)
  with assms show ?thesis by (simp add: NextID_unlocked)
qed

lemma generated_id:
  assumes "UnsafeNextID now w p = Some (Inr i, w', p') \<or> NextID now w p = Some (Inr i, w', p')"
  shows "UnsafeNextID now w p = Some (Inr i, w', p')"
  using assms NextID_Some by blast

lemma sequenceInRange_nonneg: "sequenceInRange w \<Longrightarrow> 0 \<le> sint (Sequence w)"
  by (simp add: sequenceInRange_def)

lemma composeID_cong:
  "sameConfig w w' \<Longrightarrow> composeID w' t =
     shl64 (t - CustomEpoch w) (TimeStampShift w) OR shl64 (ID w) (IDShift w) OR Sequence w'"
  by (simp add: sameConfig_def composeID_def)

lemma NewWorker_Inr:
  assumes "NewWorker now id' epoch idBits sequenceBits timestampBits frequency q = Inr (w0, p0)"
  shows "p0 = Suc q" and "LastTimeStamp w0 = tick now w0 q" and "Sequence w0 = 0"
    and "\<not> mutex w0" and "Frequency w0 = frequency" and "frequency \<noteq> 0"
    and "ID w0 = id'" and "CustomEpoch w0 = epoch" and "IDBits w0 = idBits"
    and "SequenceBits w0 = sequenceBits" and "TimeStampBits w0 = timestampBits"
    and "IDShift w0 = sequenceBits" and "TimeStampShift w0 = sequenceBits + idBits"
    and "TotalBits w0 = idBits + sequenceBits + timestampBits + 1"
  using assms
  by (auto simp: NewWorker_def Time_def tick_def Let_def split: if_splits)

section \<open>Generators\<close>

lemma generator_invariant:
  assumes "generator now w p"
  shows "Frequency w \<noteq> 0 \<and> sequenceInRange w \<and> \<not> mutex w
    \<and> IDShift w = SequenceBits w \<and> TimeStampShift w = SequenceBits w + IDBits w
    \<and> TotalBits w = IDBits w + SequenceBits w + TimeStampBits w + 1"
  using assms
proof (induction rule: generator.induct)
  case (built id' epoch idBits sequenceBits timestampBits frequency q w p)
  note N = NewWorker_Inr [OF built]
  show ?case by (simp add: N sequenceInRange_def)
next
  case (unsafe w p i w' p')
  from unsafe.hyps(2) have f: "sameConfig w w' \<and> mutex w' = mutex w" by (rule UnsafeNextID_frame)
  from unsafe.IH have "0 \<le> sint (Sequence w)" by (simp add: sequenceInRange_def)
  with unsafe.hyps(2) have "sequenceInRange w'" by (rule UnsafeNextID_sequenceInRange)
  with f unsafe.IH show ?case by (simp add: sameConfig_def)
next
  case (safe w p i w' p')
  from safe.hyps(2) have u: "UnsafeNextID now w p = Some (Inr i, w', p')" by (rule NextID_Some)
  then have f: "sameConfig w w' \<and> mutex w' = mutex w" by (rule UnsafeNextID_frame)
  from safe.IH have "0 \<le> sint (Sequence w)" by (simp add: sequenceInRange_def)
  with u have "sequenceInRange w'" by (rule UnsafeNextID_sequenceInRange)
  with f safe.IH show ?case by (simp add: sameConfig_def)
qed

lemma generator_sane:
  assumes "generator now w p"
    and "unat (IDBits w) + unat (SequenceBits w) + unat (TimeStampBits w) + 1 \<le> 64"
    and "0 \<le> sint (ID w)" and "sint (ID w) < 2 ^ unat (IDBits w)"
  shows "saneConfig w" and "sequenceInRange w"
  using generator_invariant [OF assms(1)] assms(2-4) by (simp_all add: saneConfig_def)

lemma example_generator:
  "generator exampleClock exampleWorker (Suc 0)"
  "generator exampleClock (exampleWorker\<lparr>Sequence := 1\<rparr>) (Suc (Suc 0))"
proof -
  show g: "generator exampleClock exampleWorker (Suc 0)"
    using example_NewWorker by (rule generator.built)
  from g example_call_1 show "generator exampleClock (exampleWorker\<lparr>Sequence := 1\<rparr>) (Suc (Suc 0))"
    by (rule generator.unsafe)
qed

section \<open>The fields of a composed id\<close>

lemma packed_fields:
  assumes x: "take_bit c (x::int64) = x" and y: "take_bit b (y::int64) = y"
    and z: "take_bit a (z::int64) = z" and w: "a + b + c \<le> 63"
  shows "(push_bit (a + b) x OR push_bit a y OR z) AND mask a = z"
    and "signed_drop_bit a (push_bit (a + b) x OR push_bit a y OR z) AND mask b = y"
    and "signed_drop_bit (a + b) (push_bit (a + b) x OR push_bit a y OR z) AND mask c = x"
    and "\<And>n. bit (push_bit (a + b) x OR push_bit a y OR z) n \<longleftrightarrow>
          (n < a \<and> bit z n) \<or> (a \<le> n \<and> n < a + b \<and> bit y (n - a))
          \<or> (a + b \<le> n \<and> n < a + b + c \<and> bit x (n - (a + b)))"
proof -
  note X = small_bit_less [OF x] and Y = small_bit_less [OF y] and Z = small_bit_less [OF z]
  show "(push_bit (a + b) x OR push_bit a y OR z) AND mask a = z"
  proof (rule bit_word_eqI)
    fix n assume "n < LENGTH(64)"
    then show "bit ((push_bit (a + b) x OR push_bit a y OR z) AND mask a) n = bit z n"
      using Z [of n] by (auto simp: bit_simps)
  qed
  show "signed_drop_bit a (push_bit (a + b) x OR push_bit a y OR z) AND mask b = y"
  proof (rule bit_word_eqI)
    fix n assume "n < LENGTH(64)"
    then show "bit (signed_drop_bit a (push_bit (a + b) x OR push_bit a y OR z) AND mask b) n = bit y n"
      using Y [of n] Z [of "a + n"] w by (auto simp: bit_simps)
  qed
  show "signed_drop_bit (a + b) (push_bit (a + b) x OR push_bit a y OR z) AND mask c = x"
  proof (rule bit_word_eqI)
    fix n assume "n < LENGTH(64)"
    then show "bit (signed_drop_bit (a + b) (push_bit (a + b) x OR push_bit a y OR z) AND mask c) n = bit x n"
      using X [of n] Y [of "b + n"] Z [of "a + b + n"] w by (auto simp: bit_simps)
  qed
  fix n
  show "bit (push_bit (a + b) x OR push_bit a y OR z) n \<longleftrightarrow>
          (n < a \<and> bit z n) \<or> (a \<le> n \<and> n < a + b \<and> bit y (n - a))
          \<or> (a + b \<le> n \<and> n < a + b + c \<and> bit x (n - (a + b)))"
    using X [of "n - (a + b)"] Y [of "n - a"] Z [of n] w
    by (auto simp: bit_simps dest: bit_imp_le_length)
qed

lemma saneConfig_shifts:
  assumes "saneConfig w"
  shows "unat (IDShift w) = unat (SequenceBits w)"
    and "unat (TimeStampShift w) = unat (SequenceBits w) + unat (IDBits w)"
    and "unat (SequenceBits w) + unat (IDBits w) + unat (TimeStampBits w) \<le> 63"
    and "unat (SequenceBits w) < 64"
proof -
  from assms show "unat (IDShift w) = unat (SequenceBits w)" by (simp add: saneConfig_def)
  from assms have le: "unat (IDBits w) + unat (SequenceBits w) + unat (TimeStampBits w) + 1 \<le> 64"
    by (simp add: saneConfig_def)
  then have "unat (SequenceBits w) + unat (IDBits w) < 2 ^ LENGTH(64)" by simp
  then have "unat (SequenceBits w + IDBits w) = unat (SequenceBits w) + unat (IDBits w)"
    by (simp only: unat_add_lem)
  with assms show "unat (TimeStampShift w) = unat (SequenceBits w) + unat (IDBits w)"
    by (simp add: saneConfig_def)
  from le show "unat (SequenceBits w) + unat (IDBits w) + unat (TimeStampBits w) \<le> 63" by simp
  from le show "unat (SequenceBits w) < 64" by simp
qed

lemma saneConfig_cong:
  "sameConfig w w' \<Longrightarrow> saneConfig w \<Longrightarrow> saneConfig w'"
  by (simp add: sameConfig_def saneConfig_def)

text \<open>The composed id of a sane configuration, written with the widths.\<close>

lemma composeID_sane:
  assumes "saneConfig w"
  shows "composeID w t =
     push_bit (unat (SequenceBits w) + unat (IDBits w)) (t - CustomEpoch w)
       OR push_bit (unat (SequenceBits w)) (ID w) OR Sequence w"
  using saneConfig_shifts(1,2) [OF assms] by (simp add: composeID_def shl64_def)

lemma composed_fields:
  assumes sane: "saneConfig w" and seq: "sequenceInRange w"
    and d: "0 \<le> sint (t - CustomEpoch w)" "sint (t - CustomEpoch w) < 2 ^ unat (TimeStampBits w)"
  shows "sequenceField w (composeID w t) = Sequence w"
    and "workerField w (composeID w t) = ID w"
    and "timestampField w (composeID w t) = t - CustomEpoch w"
    and "\<And>n. bit (composeID w t) n \<longleftrightarrow>
          (n < unat (SequenceBits w) \<and> bit (Sequence w) n)
          \<or> (unat (SequenceBits w) \<le> n \<and> n < unat (SequenceBits w) + unat (IDBits w)
               \<and> bit (ID w) (n - unat (SequenceBits w)))
          \<or> (unat (SequenceBits w) + unat (IDBits w) \<le> n
               \<and> n < unat (SequenceBits w) + unat (IDBits w) + unat (TimeStampBits w)
               \<and> bit (t - CustomEpoch w) (n - (unat (SequenceBits w) + unat (IDBits w))))"
proof -
  let ?a = "unat (SequenceBits w)" and ?b = "unat (IDBits w)" and ?c = "unat (TimeStampBits w)"
  have x: "take_bit ?c (t - CustomEpoch w) = t - CustomEpoch w" using d by (rule small_bits)
  have y: "take_bit ?b (ID w) = ID w" using sane by (intro small_bits) (simp_all add: saneConfig_def)
  have z: "take_bit ?a (Sequence w) = Sequence w"
    using seq by (intro small_bits) (simp_all add: sequenceInRange_def)
  have le: "?a + ?b + ?c \<le> 63" using sane by (rule saneConfig_shifts)
  note sh = saneConfig_shifts(1,2) [OF sane]
  show "sequenceField w (composeID w t) = Sequence w"
    unfolding sequenceField_def composeID_sane [OF sane] by (rule packed_fields(1) [OF x y z le])
  show "workerField w (composeID w t) = ID w"
    unfolding workerField_def composeID_sane [OF sane] sh by (rule packed_fields(2) [OF x y z le])
  show "timestampField w (composeID w t) = t - CustomEpoch w"
    unfolding timestampField_def composeID_sane [OF sane] sh by (rule packed_fields(3) [OF x y z le])
  fix n
  show "bit (composeID w t) n \<longleftrightarrow>
          (n < ?a \<and> bit (Sequence w) n)
          \<or> (?a \<le> n \<and> n < ?a + ?b \<and> bit (ID w) (n - ?a))
          \<or> (?a + ?b \<le> n \<and> n < ?a + ?b + ?c \<and> bit (t - CustomEpoch w) (n - (?a + ?b)))"
    unfolding composeID_sane [OF sane] by (rule packed_fields(4) [OF x y z le])
qed

lemma example_sane: "saneConfig exampleWorker" "sequenceInRange exampleWorker"
  "saneConfig (exampleWorker\<lparr>Sequence := 1\<rparr>)" "sequenceInRange (exampleWorker\<lparr>Sequence := 1\<rparr>)"
  by (simp_all add: saneConfig_def sequenceInRange_def exampleWorker_def)



text \<open>
  C7. For a generator whose worker id lies in \<open>0 \<le> id < 2 ^ idBits\<close> and whose
  widths and sign bit fit into 64 bits (the widths added as natural numbers; so in
  particular when they fit into 63), an id produced while \<open>timestamp - epoch\<close> is
  non-negative and below \<open>2 ^ timestampBits\<close> decomposes by shift and mask into the
  configured worker id, a sequence field that is the sequence the call leaves and lies
  in \<open>0 \<le> s < 2 ^ sequenceBits\<close>, and a timestamp field equal to
  \<open>timestamp - epoch\<close>.
\<close>

theorem field_round_trip:
  assumes "generator now w p"
    and "unat (IDBits w) + unat (SequenceBits w) + unat (TimeStampBits w) + 1 \<le> 64"
    and "0 \<le> sint (ID w)" and "sint (ID w) < 2 ^ unat (IDBits w)"
    and "UnsafeNextID now w p = Some (Inr i, w', p') \<or> NextID now w p = Some (Inr i, w', p')"
    and "0 \<le> sint (LastTimeStamp w' - CustomEpoch w)"
    and "sint (LastTimeStamp w' - CustomEpoch w) < 2 ^ unat (TimeStampBits w)"
  shows "workerField w i = ID w
    \<and> sequenceField w i = Sequence w'
    \<and> 0 \<le> sint (sequenceField w i) \<and> sint (sequenceField w i) < 2 ^ unat (SequenceBits w)
    \<and> timestampField w i = LastTimeStamp w' - CustomEpoch w
    \<and> i = shl64 (LastTimeStamp w' - CustomEpoch w) (TimeStampShift w)
            OR shl64 (ID w) (IDShift w) OR Sequence w'"
proof -
  from assms(1-4) have sw: "saneConfig w" "sequenceInRange w" by (rule generator_sane)+
  from assms(5) have u: "UnsafeNextID now w p = Some (Inr i, w', p')" by (rule generated_id)
  then have i: "i = composeID w' (LastTimeStamp w')" by (rule UnsafeNextID_Inr)
  from u have same: "sameConfig w w'" using UnsafeNextID_frame by blast
  with sw(1) have sane: "saneConfig w'" using saneConfig_cong by blast
  from sw(2) have "0 \<le> sint (Sequence w)" by (rule sequenceInRange_nonneg)
  with u have seq: "sequenceInRange w'" by (rule UnsafeNextID_sequenceInRange)
  from same have eq: "CustomEpoch w' = CustomEpoch w" "SequenceBits w' = SequenceBits w"
    "IDBits w' = IDBits w" "TimeStampBits w' = TimeStampBits w" "ID w' = ID w"
    "IDShift w' = IDShift w" "TimeStampShift w' = TimeStampShift w"
    by (simp_all add: sameConfig_def)
  from assms(6,7) have d: "0 \<le> sint (LastTimeStamp w' - CustomEpoch w')"
    "sint (LastTimeStamp w' - CustomEpoch w') < 2 ^ unat (TimeStampBits w')"
    by (simp_all add: eq)
  note f = composed_fields(1-3) [OF sane seq d, folded i]
  have "workerField w i = workerField w' i"
    by (simp add: workerField_def eq)
  with f have 1: "workerField w i = ID w" by (simp add: eq)
  have "sequenceField w i = sequenceField w' i"
    by (simp add: sequenceField_def eq)
  with f have 2: "sequenceField w i = Sequence w'" by simp
  have "timestampField w i = timestampField w' i"
    by (simp add: timestampField_def eq)
  with f have 3: "timestampField w i = LastTimeStamp w' - CustomEpoch w" by (simp add: eq)
  from seq have 4: "0 \<le> sint (Sequence w')" "sint (Sequence w') < 2 ^ unat (SequenceBits w)"
    by (simp_all add: sequenceInRange_def eq)
  have 5: "i = shl64 (LastTimeStamp w' - CustomEpoch w) (TimeStampShift w)
            OR shl64 (ID w) (IDShift w) OR Sequence w'"
    using same i by (simp only: composeID_cong)
  from 1 2 3 4 5 show ?thesis by (simp only: 2 simp_thms)
qed

theorem field_round_trip_witness:
  "generator exampleClock (exampleWorker\<lparr>Sequence := 1\<rparr>) (Suc (Suc 0))
   \<and> unat (1 :: uint64) + unat (1 :: uint64) + unat (3 :: uint64) + 1 \<le> 64
   \<and> 0 \<le> sint (1 :: int64) \<and> sint (1 :: int64) < 2 ^ unat (1 :: uint64)
   \<and> UnsafeNextID exampleClock (exampleWorker\<lparr>Sequence := 1\<rparr>) (Suc (Suc 0))
     = Some (Inr 10, exampleWorker\<lparr>Sequence := 0, LastTimeStamp := 102\<rparr>, 5)
   \<and> 0 \<le> sint (102 - 100 :: int64) \<and> sint (102 - 100 :: int64) < 2 ^ unat (3 :: uint64)
   \<and> workerField (exampleWorker\<lparr>Sequence := 1\<rparr>) 10 = 1
   \<and> sequenceField (exampleWorker\<lparr>Sequence := 1\<rparr>) 10 = 0
   \<and> timestampField (exampleWorker\<lparr>Sequence := 1\<rparr>) 10 = 2"
proof -
  let ?w = "exampleWorker\<lparr>Sequence := 1\<rparr>"
  let ?w' = "exampleWorker\<lparr>Sequence := 0, LastTimeStamp := 102\<rparr>"
  have r: "unat (IDBits ?w) + unat (SequenceBits ?w) + unat (TimeStampBits ?w) + 1 \<le> 64"
    "0 \<le> sint (ID ?w)" "sint (ID ?w) < 2 ^ unat (IDBits ?w)"
    by (simp_all add: exampleWorker_def)
  have d: "0 \<le> sint (LastTimeStamp ?w' - CustomEpoch ?w)"
    "sint (LastTimeStamp ?w' - CustomEpoch ?w) < 2 ^ unat (TimeStampBits ?w)"
    by (simp_all add: exampleWorker_def)
  have u: "UnsafeNextID exampleClock ?w (Suc (Suc 0)) = Some (Inr 10, ?w', 5)
     \<or> NextID exampleClock ?w (Suc (Suc 0)) = Some (Inr 10, ?w', 5)"
    using example_call_2 by simp
  from field_round_trip [OF example_generator(2) r u d]
  have "workerField ?w 10 = 1 \<and> sequenceField ?w 10 = 0 \<and> timestampField ?w 10 = 2"
    by (simp add: exampleWorker_def)
  moreover have "unat (1 :: uint64) + unat (1 :: uint64) + unat (3 :: uint64) + 1 \<le> 64
   \<and> 0 \<le> sint (1 :: int64) \<and> sint (1 :: int64) < 2 ^ unat (1 :: uint64)
   \<and> 0 \<le> sint (102 - 100 :: int64) \<and> sint (102 - 100 :: int64) < 2 ^ unat (3 :: uint64)"
    by simp
  ultimately show ?thesis using example_generator(2) example_call_2 by blast
qed

section \<open>The clock set back\<close>

lemma quo64_drift [simp]:
  "quo64 1010 10 = 101" "quo64 1050 10 = 105" "quo64 1060 10 = 106"
  by (simp_all add: quo64_def signed_divide_int_def)

lemma drift_NewWorker:
  "NewWorker driftClock 1 100 1 1 3 10 0 = Inr (exampleWorker\<lparr>LastTimeStamp := 101\<rparr>, Suc 0)"
  by (simp add: NewWorker_def Time_def driftClock_def exampleWorker_def Let_def)

lemma drift_call_1:
  "UnsafeNextID driftClock (exampleWorker\<lparr>LastTimeStamp := 101\<rparr>) (Suc 0)
     = Some (Inr 10, exampleWorker\<lparr>Sequence := 0, LastTimeStamp := 102\<rparr>, 2)"
proof -
  let ?w = "exampleWorker\<lparr>LastTimeStamp := 101\<rparr>"
  have "UnsafeNextID driftClock ?w (Suc 0) =
     Some (Inr (composeID (?w\<lparr>Sequence := 0, LastTimeStamp := tick driftClock ?w (Suc 0)\<rparr>)
                  (tick driftClock ?w (Suc 0))),
           ?w\<lparr>Sequence := 0, LastTimeStamp := tick driftClock ?w (Suc 0)\<rparr>, Suc (Suc 0))"
    by (rule UnsafeNextID_new_tick) (simp_all add: exampleWorker_def tick_def driftClock_def)
  then show ?thesis
    by (simp add: composeID_def shl64_def exampleWorker_def tick_def driftClock_def)
qed

lemma drift_call_2:
  "UnsafeNextID driftClock (exampleWorker\<lparr>Sequence := 0, LastTimeStamp := 102\<rparr>) 2
     = Some (Inr 22, exampleWorker\<lparr>Sequence := 0, LastTimeStamp := 105\<rparr>, 3)"
proof -
  let ?w = "exampleWorker\<lparr>Sequence := 0, LastTimeStamp := 102\<rparr>"
  have "UnsafeNextID driftClock ?w 2 =
     Some (Inr (composeID (?w\<lparr>Sequence := 0, LastTimeStamp := tick driftClock ?w 2\<rparr>)
                  (tick driftClock ?w 2)),
           ?w\<lparr>Sequence := 0, LastTimeStamp := tick driftClock ?w 2\<rparr>, Suc 2)"
    by (rule UnsafeNextID_new_tick) (simp_all add: exampleWorker_def tick_def driftClock_def)
  then show ?thesis
    by (simp add: composeID_def shl64_def exampleWorker_def tick_def driftClock_def)
qed

lemma drift_call_3:
  "UnsafeNextID driftClock (exampleWorker\<lparr>Sequence := 0, LastTimeStamp := 105\<rparr>) 3
     = Some (Inr 10, exampleWorker\<lparr>Sequence := 0, LastTimeStamp := 102\<rparr>, 5)"
proof -
  let ?w = "exampleWorker\<lparr>Sequence := 0, LastTimeStamp := 105\<rparr>"
  have k: "waited driftClock ?w (Suc 3) 4"
    by (auto simp: waited_def exampleWorker_def tick_def driftClock_def)
  have "UnsafeNextID driftClock ?w 3 =
     Some (Inr (composeID (?w\<lparr>Sequence := 0, LastTimeStamp := tick driftClock ?w 3\<rparr>)
                  (tick driftClock ?w 3)),
           ?w\<lparr>Sequence := 0, LastTimeStamp := tick driftClock ?w 3\<rparr>, Suc 4)"
    by (rule UnsafeNextID_drift [OF _ _ k])
       (simp_all add: exampleWorker_def tick_def driftClock_def)
  then show ?thesis
    by (simp add: composeID_def shl64_def exampleWorker_def tick_def driftClock_def)
qed

text \<open>
  C4. What the code does when the clock is behind the recorded tick. The Worker
  built at tick 101 returns the ids 10 (tick 102) and 22 (tick 105). The third call
  reads tick 102, below the recorded 105; it waits until a read returns 106, and then
  goes on with the tick 102 it read first: it returns with \<open>LastTimeStamp = 102\<close>,
  below the 105 at its entry, and its id is 10 again.
\<close>

theorem drift_wait_result_discarded:
  "NewWorker driftClock 1 100 1 1 3 10 0 = Inr (exampleWorker\<lparr>LastTimeStamp := 101\<rparr>, Suc 0)
   \<and> calls (UnsafeNextID driftClock) (Suc (Suc 0)) (exampleWorker\<lparr>LastTimeStamp := 101\<rparr>) (Suc 0)
       = Some (Inr [10, 22], exampleWorker\<lparr>Sequence := 0, LastTimeStamp := 105\<rparr>, 3)
   \<and> tick driftClock (exampleWorker\<lparr>Sequence := 0, LastTimeStamp := 105\<rparr>) 3 = 102
   \<and> tick driftClock (exampleWorker\<lparr>Sequence := 0, LastTimeStamp := 105\<rparr>) 4 = 106
   \<and> UnsafeNextID driftClock (exampleWorker\<lparr>Sequence := 0, LastTimeStamp := 105\<rparr>) 3
       = Some (Inr 10, exampleWorker\<lparr>Sequence := 0, LastTimeStamp := 102\<rparr>, 5)
   \<and> LastTimeStamp (exampleWorker\<lparr>Sequence := 0, LastTimeStamp := 102\<rparr>)
         <s LastTimeStamp (exampleWorker\<lparr>Sequence := 0, LastTimeStamp := 105\<rparr>)
   \<and> calls (UnsafeNextID driftClock) (Suc (Suc (Suc 0))) (exampleWorker\<lparr>LastTimeStamp := 101\<rparr>) (Suc 0)
       = Some (Inr [10, 22, 10], exampleWorker\<lparr>Sequence := 0, LastTimeStamp := 102\<rparr>, 5)"
  by (simp add: drift_NewWorker drift_call_1 drift_call_2 drift_call_3)
     (simp add: tick_def driftClock_def exampleWorker_def)

section \<open>Successive calls\<close>

lemma waitForNextTime_position:
  assumes "waitForNextTime now w p = Some (r, w', p')"
  shows "p < p'"
proof (cases "Frequency w = 0")
  case True
  with assms show ?thesis by (simp add: waitForNextTime_def Time_def)
next
  case False
  from waitForNextTime_Some [OF assms False] show ?thesis by (auto simp: waited_def)
qed

lemma driftStep_position: "driftStep now w t p = Some (r, w', p') \<Longrightarrow> p \<le> p'"
  by (auto simp: driftStep_def split: if_splits dest: waitForNextTime_position)

lemma sequenceStep_position:
  assumes "sequenceStep now w t p = Some (r, w', p')"
  shows "p \<le> p'"
proof (cases "LastTimeStamp w = t \<and> shl64 1 (SequenceBits w) \<noteq> 0 \<and>
    rem64 (Sequence w + 1) (shl64 1 (SequenceBits w)) = 0")
  case True
  let ?w1 = "w\<lparr>Sequence := rem64 (Sequence w + 1) (shl64 1 (SequenceBits w))\<rparr>"
  from assms True obtain r' where "waitForNextTime now ?w1 p = Some (r', w', p')"
    by (auto simp: sequenceStep_def Let_def split: option.splits sum.splits)
  then have "p < p'" by (rule waitForNextTime_position)
  then show ?thesis by simp
next
  case False
  with assms show ?thesis
    by (auto simp: sequenceStep_def Let_def split: if_splits)
qed

lemma UnsafeNextID_position:
  assumes "UnsafeNextID now w p = Some (r, w', p')"
  shows "p < p'"
proof (cases "Frequency w = 0")
  case True
  with assms show ?thesis by (simp add: UnsafeNextID_def Time_def)
next
  case False
  let ?t = "tick now w p"
  from assms False obtain r1 w1 p1 where d: "driftStep now w ?t (Suc p) = Some (r1, w1, p1)"
    by (auto simp: UnsafeNextID_def Time_ok split: option.splits)
  then have p1: "Suc p \<le> p1" by (rule driftStep_position)
  show ?thesis
  proof (cases r1)
    case (Inl e)
    with assms False d p1 show ?thesis by (auto simp: UnsafeNextID_def Time_ok)
  next
    case (Inr u)
    with assms False d obtain r2 w2 p2 where s: "sequenceStep now w1 ?t p1 = Some (r2, w2, p2)"
      by (auto simp: UnsafeNextID_def Time_ok split: option.splits)
    then have "p1 \<le> p2" by (rule sequenceStep_position)
    moreover from assms False d Inr s have "p' = p2"
      by (cases r2) (auto simp: UnsafeNextID_def Time_ok Let_def)
    ultimately show ?thesis using p1 by simp
  qed
qed

lemma calls_position:
  "calls (UnsafeNextID now) n w p = Some (r, w', p') \<Longrightarrow> p \<le> p'"
proof (induction n arbitrary: w p r)
  case 0
  then show ?case by simp
next
  case (Suc n)
  from Suc.prems obtain r1 w1 p1 where u: "UnsafeNextID now w p = Some (r1, w1, p1)"
    by (auto split: option.splits)
  then have lt: "p < p1" by (rule UnsafeNextID_position)
  show ?case
  proof (cases r1)
    case (Inl e)
    with Suc.prems u lt show ?thesis by simp
  next
    case (Inr i)
    with Suc.prems u obtain r2 where "calls (UnsafeNextID now) n w1 p1 = Some (r2, w', p')"
      by (auto split: option.splits sum.splits)
    then have "p1 \<le> p'" by (rule Suc.IH)
    with lt show ?thesis by simp
  qed
qed

text \<open>One call with the clock not behind: the (tick, sequence) pair moves up.\<close>

lemma UnsafeNextID_progress:
  assumes u: "UnsafeNextID now w p = Some (Inr i, w', p')"
    and seq: "sequenceInRange w" and sb: "unat (SequenceBits w) < 64"
    and nd: "LastTimeStamp w \<le>s tick now w p"
  shows "LastTimeStamp w' = tick now w (p' - 1) \<and> precedes w w'"
proof -
  from u have f: "Frequency w \<noteq> 0" by (rule UnsafeNextID_Inr)
  let ?s = "rem64 (Sequence w + 1) (shl64 1 (SequenceBits w))"
  have m: "shl64 1 (SequenceBits w) \<noteq> 0" using sb by (simp add: shl64_one)
  from seq have s0: "0 \<le> sint (Sequence w)" "sint (Sequence w) < 2 ^ unat (SequenceBits w)"
    by (simp_all add: sequenceInRange_def)
  show ?thesis
  proof (cases "LastTimeStamp w = tick now w p")
    case False
    with nd have lt: "LastTimeStamp w <s tick now w p" by simp
    from UnsafeNextID_new_tick [OF f lt] u
    have "w' = w\<lparr>Sequence := 0, LastTimeStamp := tick now w p\<rparr>" "p' = Suc p" by simp_all
    with lt show ?thesis by (simp add: precedes_def word_sless_alt)
  next
    case True
    show ?thesis
    proof (cases "?s = 0")
      case False
      from UnsafeNextID_same_tick [OF f True m refl False] u
      have "w' = w\<lparr>Sequence := ?s\<rparr>" "p' = Suc p" by simp_all
      moreover have "sint ?s = sint (Sequence w) + 1"
        using s0 sb False by (rule rem64_nonzero)
      ultimately show ?thesis using True by (simp add: precedes_def)
    next
      case z: True
      show ?thesis
      proof (cases "\<exists>k. waited now w (Suc p) k")
        case False
        then have "UnsafeNextID now w p = None"
          using UnsafeNextID_exhausted_forever [OF f True m z] by simp
        with u show ?thesis by simp
      next
        case True
        then obtain k where k: "waited now w (Suc p) k" ..
        from UnsafeNextID_exhausted [OF f \<open>LastTimeStamp w = tick now w p\<close> m z k] u
        have "w' = w\<lparr>Sequence := 0, LastTimeStamp := tick now w k\<rparr>" "p' = Suc k" by simp_all
        moreover from k have "LastTimeStamp w <s tick now w k" by (simp add: waited_def)
        ultimately show ?thesis by (simp add: precedes_def word_sless_alt)
      qed
    qed
  qed
qed

lemma precedes_trans: "precedes a b \<Longrightarrow> precedes b c \<Longrightarrow> precedes a c"
  by (auto simp: precedes_def)

lemma sint_diff_in_range:
  assumes "0 \<le> sint (t::int64) - sint (e::int64)" "sint t - sint e < 2 ^ c" "c \<le> 63"
  shows "sint (t - e) = sint t - sint e"
proof -
  have "(2::int) ^ c \<le> 2 ^ 63" using assms(3) by (intro power_increasing) auto
  with assms(2) have "sint t - sint e < 2 ^ 63" by simp
  with assms(1) show ?thesis
    by (simp add: sint_word_diff signed_take_bit_int_eq_self)
qed

text \<open>For a sane configuration the composed id is strictly monotone in the pair.\<close>

lemma sint_composeID:
  assumes sane: "saneConfig w" and seq: "sequenceInRange w" and t: "tickInRange w t"
  shows "sint (composeID w t) =
     (sint t - sint (CustomEpoch w)) * 2 ^ (unat (SequenceBits w) + unat (IDBits w))
       + sint (ID w) * 2 ^ unat (SequenceBits w) + sint (Sequence w)"
proof -
  let ?a = "unat (SequenceBits w)" and ?b = "unat (IDBits w)" and ?c = "unat (TimeStampBits w)"
  have le: "?a + ?b + ?c \<le> 63" using sane by (rule saneConfig_shifts)
  then have c: "?c \<le> 63" by simp
  from t have d: "sint (t - CustomEpoch w) = sint t - sint (CustomEpoch w)"
    using c by (intro sint_diff_in_range [of _ _ ?c]) (simp_all add: tickInRange_def)
  have x: "0 \<le> sint (t - CustomEpoch w)" "sint (t - CustomEpoch w) < 2 ^ ?c"
    using t by (simp_all add: d tickInRange_def)
  have y: "0 \<le> sint (ID w)" "sint (ID w) < 2 ^ ?b" using sane by (simp_all add: saneConfig_def)
  have z: "0 \<le> sint (Sequence w)" "sint (Sequence w) < 2 ^ ?a"
    using seq by (simp_all add: sequenceInRange_def)
  show ?thesis
    unfolding composeID_sane [OF sane] sint_packed [OF x y z le] d ..
qed

lemma composeID_mono:
  assumes sane: "saneConfig w" and same: "sameConfig w w'"
    and seq: "sequenceInRange w" "sequenceInRange w'"
    and t: "tickInRange w (LastTimeStamp w)" "tickInRange w (LastTimeStamp w')"
    and lt: "precedes w w'"
  shows "composeID w (LastTimeStamp w) <s composeID w' (LastTimeStamp w')"
proof -
  let ?a = "unat (SequenceBits w)" and ?b = "unat (IDBits w)"
  from same have eq: "CustomEpoch w' = CustomEpoch w" "SequenceBits w' = SequenceBits w"
    "IDBits w' = IDBits w" "TimeStampBits w' = TimeStampBits w" "ID w' = ID w"
    by (simp_all add: sameConfig_def)
  from sane same have sane': "saneConfig w'" by (rule saneConfig_cong [rotated])
  from t(2) have t': "tickInRange w' (LastTimeStamp w')" by (simp add: tickInRange_def eq)
  have 1: "sint (composeID w (LastTimeStamp w)) =
      (sint (LastTimeStamp w) - sint (CustomEpoch w)) * 2 ^ (?a + ?b)
        + sint (ID w) * 2 ^ ?a + sint (Sequence w)"
    using sane seq(1) t(1) by (rule sint_composeID)
  have 2: "sint (composeID w' (LastTimeStamp w')) =
      (sint (LastTimeStamp w') - sint (CustomEpoch w)) * 2 ^ (?a + ?b)
        + sint (ID w) * 2 ^ ?a + sint (Sequence w')"
    using sint_composeID [OF sane' seq(2) t'] by (simp add: eq)
  have y: "0 \<le> sint (ID w)" "sint (ID w) < 2 ^ ?b" using sane by (simp_all add: saneConfig_def)
  have z: "0 \<le> sint (Sequence w)" "sint (Sequence w) < 2 ^ ?a"
    "0 \<le> sint (Sequence w')" "sint (Sequence w') < 2 ^ ?a"
    using seq by (simp_all add: sequenceInRange_def eq)
  from lt have "sint (LastTimeStamp w) - sint (CustomEpoch w)
        < sint (LastTimeStamp w') - sint (CustomEpoch w)
      \<or> (sint (LastTimeStamp w) - sint (CustomEpoch w)
           = sint (LastTimeStamp w') - sint (CustomEpoch w)
         \<and> sint (Sequence w) < sint (Sequence w'))"
    by (auto simp: precedes_def)
  with y z have "sint (composeID w (LastTimeStamp w)) < sint (composeID w' (LastTimeStamp w'))"
    unfolding 1 2 by (intro fields_lex)
  then show ?thesis by (simp add: word_sless_alt)
qed

lemma tick_cong: "sameConfig w w' \<Longrightarrow> tick now w' k = tick now w k"
  by (simp add: sameConfig_def tick_def)

lemma tickInRange_cong: "sameConfig w w' \<Longrightarrow> tickInRange w' t = tickInRange w t"
  by (simp add: sameConfig_def tickInRange_def)

lemma sameConfig_refl: "sameConfig w w"
  by (simp add: sameConfig_def)

lemma calls_increasing:
  assumes "calls (UnsafeNextID now) n w p = Some (Inr ids, w', p')"
    and "saneConfig w" and "sequenceInRange w"
    and "LastTimeStamp w = tick now w q" and "q < p"
    and "\<forall>i j. q \<le> i \<and> i \<le> j \<and> j < p' \<longrightarrow> tick now w i \<le>s tick now w j"
    and "\<forall>k. p \<le> k \<and> k < p' \<longrightarrow> tickInRange w (tick now w k)"
  shows "sorted_wrt (<s) ids \<and>
    (\<forall>i\<in>set ids. \<exists>v. sameConfig w v \<and> sequenceInRange v \<and> tickInRange w (LastTimeStamp v)
        \<and> precedes w v \<and> i = composeID v (LastTimeStamp v))"
  using assms
proof (induction n arbitrary: w p q ids)
  case 0
  then show ?case by simp
next
  case (Suc n)
  note sane = Suc.prems(2) and seq = Suc.prems(3) and last = Suc.prems(4) and qp = Suc.prems(5)
    and mono = Suc.prems(6) and range = Suc.prems(7)
  from Suc.prems(1) obtain r1 w1 p1 where u0: "UnsafeNextID now w p = Some (r1, w1, p1)"
    by (auto split: option.splits)
  with Suc.prems(1) obtain i where r1: "r1 = Inr i" by (cases r1) auto
  with u0 have u: "UnsafeNextID now w p = Some (Inr i, w1, p1)" by simp
  with Suc.prems(1) obtain ids' where c: "calls (UnsafeNextID now) n w1 p1 = Some (Inr ids', w', p')"
    and ids: "ids = i # ids'"
    by (auto split: option.splits sum.splits)
  from u have pp1: "p < p1" by (rule UnsafeNextID_position)
  from c have p1p': "p1 \<le> p'" by (rule calls_position)
  from qp pp1 p1p' have "q \<le> q \<and> q \<le> p \<and> p < p'" by arith
  with mono have "tick now w q \<le>s tick now w p" by blast
  with last have nd: "LastTimeStamp w \<le>s tick now w p" by simp
  have sb: "unat (SequenceBits w) < 64" using sane by (rule saneConfig_shifts)
  from UnsafeNextID_progress [OF u seq sb nd]
  have last1: "LastTimeStamp w1 = tick now w (p1 - 1)" and prec: "precedes w w1" by simp_all
  from u have same: "sameConfig w w1" using UnsafeNextID_frame by blast
  from same sane have sane1: "saneConfig w1" by (rule saneConfig_cong)
  from seq have "0 \<le> sint (Sequence w)" by (simp add: sequenceInRange_def)
  with u have seq1: "sequenceInRange w1" by (rule UnsafeNextID_sequenceInRange)
  from u have i: "i = composeID w1 (LastTimeStamp w1)" by (rule UnsafeNextID_Inr)
  from pp1 p1p' have "p \<le> p1 - 1 \<and> p1 - 1 < p'" by arith
  with range have "tickInRange w (tick now w (p1 - 1))" by blast
  with last1 have tr1: "tickInRange w (LastTimeStamp w1)" by simp
  have IH: "sorted_wrt (<s) ids' \<and>
    (\<forall>i\<in>set ids'. \<exists>v. sameConfig w1 v \<and> sequenceInRange v \<and> tickInRange w1 (LastTimeStamp v)
        \<and> precedes w1 v \<and> i = composeID v (LastTimeStamp v))"
  proof (rule Suc.IH [OF c sane1 seq1, of "p1 - 1"])
    show "LastTimeStamp w1 = tick now w1 (p1 - 1)" using last1 same by (simp add: tick_cong)
    show "p1 - 1 < p1" using pp1 by arith
    show "\<forall>i j. p1 - 1 \<le> i \<and> i \<le> j \<and> j < p' \<longrightarrow> tick now w1 i \<le>s tick now w1 j"
    proof (intro allI impI)
      fix i j assume "p1 - 1 \<le> i \<and> i \<le> j \<and> j < p'"
      with qp pp1 have "q \<le> i \<and> i \<le> j \<and> j < p'" by arith
      with mono have "tick now w i \<le>s tick now w j" by blast
      then show "tick now w1 i \<le>s tick now w1 j" by (simp add: tick_cong [OF same])
    qed
    show "\<forall>k. p1 \<le> k \<and> k < p' \<longrightarrow> tickInRange w1 (tick now w1 k)"
    proof (intro allI impI)
      fix k assume "p1 \<le> k \<and> k < p'"
      with pp1 have "p \<le> k \<and> k < p'" by arith
      with range have "tickInRange w (tick now w k)" by blast
      then show "tickInRange w1 (tick now w1 k)"
        by (simp add: tick_cong [OF same] tickInRange_cong [OF same])
    qed
  qed
  have above: "i <s i'" if "i' \<in> set ids'" for i'
  proof -
    from IH that obtain v where v: "sameConfig w1 v" "sequenceInRange v"
      "tickInRange w1 (LastTimeStamp v)" "precedes w1 v" "i' = composeID v (LastTimeStamp v)"
      by blast
    from tr1 have "tickInRange w1 (LastTimeStamp w1)" by (simp add: tickInRange_cong [OF same])
    with sane1 v(1) seq1 v(2) have "composeID w1 (LastTimeStamp w1) <s composeID v (LastTimeStamp v)"
      using v(3,4) by (intro composeID_mono)
    with i v(5) show ?thesis by simp
  qed
  have here: "\<exists>v. sameConfig w v \<and> sequenceInRange v \<and> tickInRange w (LastTimeStamp v)
        \<and> precedes w v \<and> i = composeID v (LastTimeStamp v)"
    using same seq1 tr1 prec i by blast
  have rest: "\<exists>v. sameConfig w v \<and> sequenceInRange v \<and> tickInRange w (LastTimeStamp v)
        \<and> precedes w v \<and> i' = composeID v (LastTimeStamp v)" if "i' \<in> set ids'" for i'
  proof -
    from IH that obtain v where v: "sameConfig w1 v" "sequenceInRange v"
      "tickInRange w1 (LastTimeStamp v)" "precedes w1 v" "i' = composeID v (LastTimeStamp v)"
      by blast
    from same v(1) have "sameConfig w v" by (rule sameConfig_trans)
    moreover from v(3) have "tickInRange w (LastTimeStamp v)" by (simp add: tickInRange_cong [OF same])
    moreover from prec v(4) have "precedes w v" by (rule precedes_trans)
    ultimately show ?thesis using v(2,5) by blast
  qed
  from IH above here rest show ?case unfolding ids by auto
qed

lemma calls_NextID:
  "\<not> mutex w \<Longrightarrow> calls (NextID now) n w p = calls (UnsafeNextID now) n w p"
proof (induction n arbitrary: w p)
  case 0
  then show ?case by simp
next
  case (Suc n)
  then have e: "NextID now w p = UnsafeNextID now w p" by (simp add: NextID_unlocked)
  show ?case
  proof (cases "UnsafeNextID now w p")
    case None
    with e show ?thesis by simp
  next
    case (Some y)
    obtain r w1 p1 where y: "y = (r, w1, p1)" by (cases y)
    with Some have "mutex w1 = mutex w" using UnsafeNextID_frame by blast
    with Suc.prems have "\<not> mutex w1" by simp
    then have "calls (NextID now) n w1 p1 = calls (UnsafeNextID now) n w1 p1" by (rule Suc.IH)
    with e Some y show ?thesis by (cases r) simp_all
  qed
qed

lemma sorted_wrt_sless_distinct: "sorted_wrt (<s) (xs :: int64 list) \<Longrightarrow> distinct xs"
  by (induction xs) auto

lemma sorted_wrt_sless_sle: "sorted_wrt (<s) (xs :: int64 list) \<Longrightarrow> sorted_wrt (\<le>s) xs"
  by (induction xs) auto

text \<open>The ids of a run from a new Worker are strictly increasing.\<close>

lemma run_increasing:
  assumes new: "NewWorker now id' epoch idBits sequenceBits timestampBits frequency q = Inr (w0, p0)"
    and widths: "unat idBits + unat sequenceBits + unat timestampBits + 1 \<le> 64"
    and id: "0 \<le> sint id'" "sint id' < 2 ^ unat idBits"
    and gen: "gen = UnsafeNextID now \<or> gen = NextID now"
    and run: "calls gen n w0 p0 = Some (Inr ids, w, p)"
    and mono: "\<forall>i j. q \<le> i \<and> i \<le> j \<and> j < p \<longrightarrow> tick now w0 i \<le>s tick now w0 j"
    and range: "\<forall>k. p0 \<le> k \<and> k < p \<longrightarrow> tickInRange w0 (tick now w0 k)"
  shows "sorted_wrt (<s) ids"
proof -
  note N = NewWorker_Inr [OF new]
  from N(4) gen have "calls gen n w0 p0 = calls (UnsafeNextID now) n w0 p0"
    using calls_NextID by auto
  with run have c: "calls (UnsafeNextID now) n w0 p0 = Some (Inr ids, w, p)" by simp
  have sane: "saneConfig w0" using widths id by (simp add: saneConfig_def N)
  have seq: "sequenceInRange w0" by (simp add: sequenceInRange_def N)
  have "q < p0" by (simp add: N)
  from calls_increasing [OF c sane seq N(2) this mono range] show ?thesis by simp
qed

section \<open>Runs that repeat an id\<close>

lemma tick_unit: "Frequency w = 1 \<Longrightarrow> tick now w k = now k"
  by (simp add: tick_def)

lemma rem64_one_small [simp]: "rem64 1 8192 = 1" "rem64 1 1099511627776 = 1"
  by (simp_all add: rem64_def signed_modulo_int_def)

text \<open>The timestamp field overflows: ticks 1, \<open>2 ^ 45\<close> and \<open>2 ^ 46 + 1\<close>.\<close>

lemma overflow_NewWorker:
  "NewWorker overflowClock 0 0 5 13 41 1 0 = Inr (tenBitsWorker 0, Suc 0)"
  by (simp add: NewWorker_def Time_def overflowClock_def tenBitsWorker_def Let_def)

lemma overflow_call_1:
  "UnsafeNextID overflowClock (tenBitsWorker 0) (Suc 0)
     = Some (Inr 262144, tenBitsWorker 0\<lparr>Sequence := 0, LastTimeStamp := 1\<rparr>, 2)"
proof -
  let ?w = "tenBitsWorker 0"
  have "UnsafeNextID overflowClock ?w (Suc 0) =
     Some (Inr (composeID (?w\<lparr>Sequence := 0, LastTimeStamp := tick overflowClock ?w (Suc 0)\<rparr>)
                  (tick overflowClock ?w (Suc 0))),
           ?w\<lparr>Sequence := 0, LastTimeStamp := tick overflowClock ?w (Suc 0)\<rparr>, Suc (Suc 0))"
    by (rule UnsafeNextID_new_tick) (simp_all add: tenBitsWorker_def tick_def overflowClock_def word_sless_alt)
  then show ?thesis
    by (simp add: composeID_def shl64_def tenBitsWorker_def tick_def overflowClock_def)
qed

lemma overflow_call_2:
  "UnsafeNextID overflowClock (tenBitsWorker 0\<lparr>Sequence := 0, LastTimeStamp := 1\<rparr>) 2
     = Some (Inr 9223372036854775808,
             tenBitsWorker 0\<lparr>Sequence := 0, LastTimeStamp := 35184372088832\<rparr>, 3)"
proof -
  let ?w = "tenBitsWorker 0\<lparr>Sequence := 0, LastTimeStamp := 1\<rparr>"
  have "UnsafeNextID overflowClock ?w 2 =
     Some (Inr (composeID (?w\<lparr>Sequence := 0, LastTimeStamp := tick overflowClock ?w 2\<rparr>)
                  (tick overflowClock ?w 2)),
           ?w\<lparr>Sequence := 0, LastTimeStamp := tick overflowClock ?w 2\<rparr>, Suc 2)"
    by (rule UnsafeNextID_new_tick) (simp_all add: tenBitsWorker_def tick_def overflowClock_def word_sless_alt)
  then show ?thesis
    by (simp add: composeID_def shl64_def tenBitsWorker_def tick_def overflowClock_def)
qed

lemma overflow_call_3:
  "UnsafeNextID overflowClock (tenBitsWorker 0\<lparr>Sequence := 0, LastTimeStamp := 35184372088832\<rparr>) 3
     = Some (Inr 262144, tenBitsWorker 0\<lparr>Sequence := 0, LastTimeStamp := 70368744177665\<rparr>, 4)"
proof -
  let ?w = "tenBitsWorker 0\<lparr>Sequence := 0, LastTimeStamp := 35184372088832\<rparr>"
  have "UnsafeNextID overflowClock ?w 3 =
     Some (Inr (composeID (?w\<lparr>Sequence := 0, LastTimeStamp := tick overflowClock ?w 3\<rparr>)
                  (tick overflowClock ?w 3)),
           ?w\<lparr>Sequence := 0, LastTimeStamp := tick overflowClock ?w 3\<rparr>, Suc 3)"
    by (rule UnsafeNextID_new_tick) (simp_all add: tenBitsWorker_def tick_def overflowClock_def word_sless_alt)
  then show ?thesis
    by (simp add: composeID_def shl64_def tenBitsWorker_def tick_def overflowClock_def)
qed

lemma overflow_run:
  "calls (UnsafeNextID overflowClock) (Suc (Suc (Suc 0))) (tenBitsWorker 0) (Suc 0)
     = Some (Inr [262144, 9223372036854775808, 262144],
             tenBitsWorker 0\<lparr>Sequence := 0, LastTimeStamp := 70368744177665\<rparr>, 4)"
  by (simp add: overflow_call_1 overflow_call_2 overflow_call_3)

lemma overflow_ticks:
  "tick overflowClock (tenBitsWorker 0) 0 \<le>s tick overflowClock (tenBitsWorker 0) 1"
  "tick overflowClock (tenBitsWorker 0) 1 \<le>s tick overflowClock (tenBitsWorker 0) 2"
  "tick overflowClock (tenBitsWorker 0) 2 \<le>s tick overflowClock (tenBitsWorker 0) 3"
  by (simp_all add: tick_def overflowClock_def tenBitsWorker_def word_sle_eq)

text \<open>A worker id outside its field: id 32 with five id bits, ticks 0, 1, 1.\<close>

lemma wide_id_NewWorker:
  "NewWorker stepClock 32 0 5 13 41 1 0 = Inr (tenBitsWorker 32, Suc 0)"
  by (simp add: NewWorker_def Time_def stepClock_def tenBitsWorker_def Let_def)

lemma wide_id_call_1:
  "UnsafeNextID stepClock (tenBitsWorker 32) (Suc 0)
     = Some (Inr 262145, tenBitsWorker 32\<lparr>Sequence := 1\<rparr>, 2)"
proof -
  let ?w = "tenBitsWorker 32"
  have "UnsafeNextID stepClock ?w (Suc 0) =
     Some (Inr (composeID (?w\<lparr>Sequence := 1\<rparr>) (tick stepClock ?w (Suc 0))),
           ?w\<lparr>Sequence := 1\<rparr>, Suc (Suc 0))"
    by (rule UnsafeNextID_same_tick)
       (simp_all add: tenBitsWorker_def tick_def stepClock_def shl64_def)
  then show ?thesis
    by (simp add: composeID_def shl64_def tenBitsWorker_def tick_def stepClock_def)
qed

lemma wide_id_call_2:
  "UnsafeNextID stepClock (tenBitsWorker 32\<lparr>Sequence := 1\<rparr>) 2
     = Some (Inr 262144, tenBitsWorker 32\<lparr>Sequence := 0, LastTimeStamp := 1\<rparr>, 3)"
proof -
  let ?w = "tenBitsWorker 32\<lparr>Sequence := 1\<rparr>"
  have "UnsafeNextID stepClock ?w 2 =
     Some (Inr (composeID (?w\<lparr>Sequence := 0, LastTimeStamp := tick stepClock ?w 2\<rparr>)
                  (tick stepClock ?w 2)),
           ?w\<lparr>Sequence := 0, LastTimeStamp := tick stepClock ?w 2\<rparr>, Suc 2)"
    by (rule UnsafeNextID_new_tick)
       (simp_all add: tenBitsWorker_def tick_def stepClock_def word_sless_alt)
  then show ?thesis
    by (simp add: composeID_def shl64_def tenBitsWorker_def tick_def stepClock_def)
qed

lemma wide_id_call_3:
  "UnsafeNextID stepClock (tenBitsWorker 32\<lparr>Sequence := 0, LastTimeStamp := 1\<rparr>) 3
     = Some (Inr 262145, tenBitsWorker 32\<lparr>Sequence := 1, LastTimeStamp := 1\<rparr>, 4)"
proof -
  let ?w = "tenBitsWorker 32\<lparr>Sequence := 0, LastTimeStamp := 1\<rparr>"
  have "UnsafeNextID stepClock ?w 3 =
     Some (Inr (composeID (?w\<lparr>Sequence := 1\<rparr>) (tick stepClock ?w 3)),
           ?w\<lparr>Sequence := 1\<rparr>, Suc 3)"
    by (rule UnsafeNextID_same_tick)
       (simp_all add: tenBitsWorker_def tick_def stepClock_def shl64_def)
  then show ?thesis
    by (simp add: composeID_def shl64_def tenBitsWorker_def tick_def stepClock_def)
qed

lemma wide_id_run:
  "calls (UnsafeNextID stepClock) (Suc (Suc (Suc 0))) (tenBitsWorker 32) (Suc 0)
     = Some (Inr [262145, 262144, 262145],
             tenBitsWorker 32\<lparr>Sequence := 1, LastTimeStamp := 1\<rparr>, 4)"
  by (simp add: wide_id_call_1 wide_id_call_2 wide_id_call_3)

text \<open>Widths beyond 64 bits: 30 id bits, 40 sequence bits, 1 timestamp bit.\<close>

lemma wide_NewWorker:
  "NewWorker stepClock 0 0 30 40 1 1 0 = Inr (wideWorker, Suc 0)"
  by (simp add: NewWorker_def Time_def stepClock_def wideWorker_def Let_def)

lemma wide_call_1:
  "UnsafeNextID stepClock wideWorker (Suc 0) = Some (Inr 1, wideWorker\<lparr>Sequence := 1\<rparr>, 2)"
proof -
  have "UnsafeNextID stepClock wideWorker (Suc 0) =
     Some (Inr (composeID (wideWorker\<lparr>Sequence := 1\<rparr>) (tick stepClock wideWorker (Suc 0))),
           wideWorker\<lparr>Sequence := 1\<rparr>, Suc (Suc 0))"
    by (rule UnsafeNextID_same_tick)
       (simp_all add: wideWorker_def tick_def stepClock_def shl64_def)
  then show ?thesis
    by (simp add: composeID_def shl64_def wideWorker_def tick_def stepClock_def)
qed

lemma wide_call_2:
  "UnsafeNextID stepClock (wideWorker\<lparr>Sequence := 1\<rparr>) 2
     = Some (Inr 0, wideWorker\<lparr>Sequence := 0, LastTimeStamp := 1\<rparr>, 3)"
proof -
  let ?w = "wideWorker\<lparr>Sequence := 1\<rparr>"
  have "UnsafeNextID stepClock ?w 2 =
     Some (Inr (composeID (?w\<lparr>Sequence := 0, LastTimeStamp := tick stepClock ?w 2\<rparr>)
                  (tick stepClock ?w 2)),
           ?w\<lparr>Sequence := 0, LastTimeStamp := tick stepClock ?w 2\<rparr>, Suc 2)"
    by (rule UnsafeNextID_new_tick)
       (simp_all add: wideWorker_def tick_def stepClock_def word_sless_alt)
  then show ?thesis
    by (simp add: composeID_def shl64_def wideWorker_def tick_def stepClock_def)
qed

lemma wide_call_3:
  "UnsafeNextID stepClock (wideWorker\<lparr>Sequence := 0, LastTimeStamp := 1\<rparr>) 3
     = Some (Inr 1, wideWorker\<lparr>Sequence := 1, LastTimeStamp := 1\<rparr>, 4)"
proof -
  let ?w = "wideWorker\<lparr>Sequence := 0, LastTimeStamp := 1\<rparr>"
  have "UnsafeNextID stepClock ?w 3 =
     Some (Inr (composeID (?w\<lparr>Sequence := 1\<rparr>) (tick stepClock ?w 3)),
           ?w\<lparr>Sequence := 1\<rparr>, Suc 3)"
    by (rule UnsafeNextID_same_tick)
       (simp_all add: wideWorker_def tick_def stepClock_def shl64_def)
  then show ?thesis
    by (simp add: composeID_def shl64_def wideWorker_def tick_def stepClock_def)
qed

lemma wide_run:
  "calls (UnsafeNextID stepClock) (Suc (Suc (Suc 0))) wideWorker (Suc 0)
     = Some (Inr [1, 0, 1], wideWorker\<lparr>Sequence := 1, LastTimeStamp := 1\<rparr>, 4)"
  by (simp add: wide_call_1 wide_call_2 wide_call_3)

lemma step_ticks:
  "Frequency w = 1 \<Longrightarrow> tick stepClock w 0 \<le>s tick stepClock w 1"
  "Frequency w = 1 \<Longrightarrow> tick stepClock w 1 \<le>s tick stepClock w 2"
  "Frequency w = 1 \<Longrightarrow> tick stepClock w 2 \<le>s tick stepClock w 3"
  by (simp_all add: tick_def stepClock_def word_sle_eq)

section \<open>Uniqueness and order of the ids\<close>

lemma example_clock_facts:
  "\<forall>i j. 0 \<le> i \<and> i \<le> j \<and> j < 6 \<longrightarrow>
     tick exampleClock exampleWorker i \<le>s tick exampleClock exampleWorker j"
  "\<forall>k. Suc 0 \<le> k \<and> k < 6 \<longrightarrow> tickInRange exampleWorker (tick exampleClock exampleWorker k)"
  by (auto simp: tick_def exampleClock_def exampleWorker_def tickInRange_def word_sle_eq)

text \<open>
  C1, as amended. Take a Worker built by \<open>NewWorker\<close> whose three widths and the sign
  bit fit into 64 bits and whose worker id lies in \<open>0 \<le> id < 2 ^ idBits\<close>, and \<open>n\<close>
  calls of \<open>UnsafeNextID\<close> by a single caller, or of \<open>NextID\<close> one after the other.
  If the ticks never decrease from the read of the construction on, and every tick
  \<open>t\<close> the calls read has \<open>0 \<le> t - epoch < 2 ^ timestampBits\<close>, then no two of the
  calls return the same id, whether they fall into one tick or into many.
\<close>

theorem ids_unique:
  assumes "NewWorker now id' epoch idBits sequenceBits timestampBits frequency q = Inr (w0, p0)"
    and "unat idBits + unat sequenceBits + unat timestampBits + 1 \<le> 64"
    and "0 \<le> sint id'" and "sint id' < 2 ^ unat idBits"
    and "gen = UnsafeNextID now \<or> gen = NextID now"
    and "calls gen n w0 p0 = Some (Inr ids, w, p)"
    and "\<forall>i j. q \<le> i \<and> i \<le> j \<and> j < p \<longrightarrow> tick now w0 i \<le>s tick now w0 j"
    and "\<forall>k. p0 \<le> k \<and> k < p \<longrightarrow> tickInRange w0 (tick now w0 k)"
  shows "distinct ids"
proof -
  from assms have "sorted_wrt (<s) ids" by (rule run_increasing)
  then show ?thesis by (rule sorted_wrt_sless_distinct)
qed

theorem ids_unique_witness:
  "NewWorker exampleClock 1 100 1 1 3 10 0 = Inr (exampleWorker, Suc 0)
   \<and> unat (1 :: uint64) + unat (1 :: uint64) + unat (3 :: uint64) + 1 \<le> 64
   \<and> 0 \<le> sint (1 :: int64) \<and> sint (1 :: int64) < 2 ^ unat (1 :: uint64)
   \<and> calls (UnsafeNextID exampleClock) (Suc (Suc (Suc 0))) exampleWorker (Suc 0)
       = Some (Inr [3, 10, 11], exampleWorker\<lparr>Sequence := 1, LastTimeStamp := 102\<rparr>, 6)
   \<and> tick exampleClock exampleWorker 0 \<le>s tick exampleClock exampleWorker 3
   \<and> tick exampleClock exampleWorker 3 \<le>s tick exampleClock exampleWorker 4
   \<and> tick exampleClock exampleWorker 4 \<le>s tick exampleClock exampleWorker 5
   \<and> tickInRange exampleWorker (tick exampleClock exampleWorker 1)
   \<and> tickInRange exampleWorker (tick exampleClock exampleWorker 5)
   \<and> distinct [3, 10, 11 :: int64]"
proof -
  have w: "unat (1 :: uint64) + unat (1 :: uint64) + unat (3 :: uint64) + 1 \<le> 64" by simp
  have i: "0 \<le> sint (1 :: int64)" "sint (1 :: int64) < 2 ^ unat (1 :: uint64)" by simp_all
  have g: "UnsafeNextID exampleClock = UnsafeNextID exampleClock
      \<or> UnsafeNextID exampleClock = NextID exampleClock" by simp
  from ids_unique [OF example_NewWorker w i g example_calls example_clock_facts]
  have "distinct [3, 10, 11 :: int64]" .
  moreover have "tick exampleClock exampleWorker 0 \<le>s tick exampleClock exampleWorker 3"
    "tick exampleClock exampleWorker 3 \<le>s tick exampleClock exampleWorker 4"
    "tick exampleClock exampleWorker 4 \<le>s tick exampleClock exampleWorker 5"
    "tickInRange exampleWorker (tick exampleClock exampleWorker 1)"
    "tickInRange exampleWorker (tick exampleClock exampleWorker 5)"
    by (simp_all add: tick_def exampleClock_def exampleWorker_def tickInRange_def word_sle_eq)
  ultimately show ?thesis using example_NewWorker w i example_calls by blast
qed

text \<open>
  Without these conditions an id comes back, with ticks that never decrease: when
  the tick leaves the window of the timestamp field (ticks 1 and \<open>2 ^ 46 + 1\<close>), when
  the worker id does not fit its field (id 32 with five id bits), and when the widths
  exceed 64 bits (30, 40 and 1).
\<close>

theorem ids_repeat_counterexample:
  "NewWorker overflowClock 0 0 5 13 41 1 0 = Inr (tenBitsWorker 0, Suc 0)
   \<and> tick overflowClock (tenBitsWorker 0) 0 \<le>s tick overflowClock (tenBitsWorker 0) 1
   \<and> tick overflowClock (tenBitsWorker 0) 1 \<le>s tick overflowClock (tenBitsWorker 0) 2
   \<and> tick overflowClock (tenBitsWorker 0) 2 \<le>s tick overflowClock (tenBitsWorker 0) 3
   \<and> calls (UnsafeNextID overflowClock) (Suc (Suc (Suc 0))) (tenBitsWorker 0) (Suc 0)
       = Some (Inr [262144, 9223372036854775808, 262144],
               tenBitsWorker 0\<lparr>Sequence := 0, LastTimeStamp := 70368744177665\<rparr>, 4)
   \<and> \<not> distinct [262144, 9223372036854775808, 262144 :: int64]
   \<and> NewWorker stepClock 32 0 5 13 41 1 0 = Inr (tenBitsWorker 32, Suc 0)
   \<and> tick stepClock (tenBitsWorker 32) 0 \<le>s tick stepClock (tenBitsWorker 32) 1
   \<and> tick stepClock (tenBitsWorker 32) 1 \<le>s tick stepClock (tenBitsWorker 32) 2
   \<and> tick stepClock (tenBitsWorker 32) 2 \<le>s tick stepClock (tenBitsWorker 32) 3
   \<and> calls (UnsafeNextID stepClock) (Suc (Suc (Suc 0))) (tenBitsWorker 32) (Suc 0)
       = Some (Inr [262145, 262144, 262145],
               tenBitsWorker 32\<lparr>Sequence := 1, LastTimeStamp := 1\<rparr>, 4)
   \<and> \<not> distinct [262145, 262144, 262145 :: int64]
   \<and> NewWorker stepClock 0 0 30 40 1 1 0 = Inr (wideWorker, Suc 0)
   \<and> tick stepClock wideWorker 0 \<le>s tick stepClock wideWorker 1
   \<and> tick stepClock wideWorker 1 \<le>s tick stepClock wideWorker 2
   \<and> tick stepClock wideWorker 2 \<le>s tick stepClock wideWorker 3
   \<and> calls (UnsafeNextID stepClock) (Suc (Suc (Suc 0))) wideWorker (Suc 0)
       = Some (Inr [1, 0, 1], wideWorker\<lparr>Sequence := 1, LastTimeStamp := 1\<rparr>, 4)
   \<and> \<not> distinct [1, 0, 1 :: int64]"
proof -
  have a: "Frequency (tenBitsWorker 32) = 1" "Frequency wideWorker = 1"
    by (simp_all add: tenBitsWorker_def wideWorker_def)
  have "\<not> distinct [262144, 9223372036854775808, 262144 :: int64]"
    "\<not> distinct [262145, 262144, 262145 :: int64]" "\<not> distinct [1, 0, 1 :: int64]"
    by simp_all
  with overflow_NewWorker overflow_ticks overflow_run wide_id_NewWorker wide_id_run
    wide_NewWorker wide_run step_ticks [OF a(1)] step_ticks [OF a(2)]
  show ?thesis by blast
qed

text \<open>
  C2, as amended. Under the conditions of C1 (a Worker built by \<open>NewWorker\<close>, the
  widths and the sign bit within 64 bits, the worker id within its field, ticks that
  never decrease and stay in the window \<open>0 \<le> t - epoch < 2 ^ timestampBits\<close>), the
  ids returned by successive calls are non-decreasing as signed 64-bit integers.
\<close>

theorem ids_nondecreasing:
  assumes "NewWorker now id' epoch idBits sequenceBits timestampBits frequency q = Inr (w0, p0)"
    and "unat idBits + unat sequenceBits + unat timestampBits + 1 \<le> 64"
    and "0 \<le> sint id'" and "sint id' < 2 ^ unat idBits"
    and "gen = UnsafeNextID now \<or> gen = NextID now"
    and "calls gen n w0 p0 = Some (Inr ids, w, p)"
    and "\<forall>i j. q \<le> i \<and> i \<le> j \<and> j < p \<longrightarrow> tick now w0 i \<le>s tick now w0 j"
    and "\<forall>k. p0 \<le> k \<and> k < p \<longrightarrow> tickInRange w0 (tick now w0 k)"
  shows "sorted_wrt (\<le>s) ids"
proof -
  from assms have "sorted_wrt (<s) ids" by (rule run_increasing)
  then show ?thesis by (rule sorted_wrt_sless_sle)
qed

theorem ids_nondecreasing_witness:
  "NewWorker exampleClock 1 100 1 1 3 10 0 = Inr (exampleWorker, Suc 0)
   \<and> unat (1 :: uint64) + unat (1 :: uint64) + unat (3 :: uint64) + 1 \<le> 64
   \<and> 0 \<le> sint (1 :: int64) \<and> sint (1 :: int64) < 2 ^ unat (1 :: uint64)
   \<and> calls (NextID exampleClock) (Suc (Suc (Suc 0))) exampleWorker (Suc 0)
       = Some (Inr [3, 10, 11], exampleWorker\<lparr>Sequence := 1, LastTimeStamp := 102\<rparr>, 6)
   \<and> tick exampleClock exampleWorker 0 \<le>s tick exampleClock exampleWorker 3
   \<and> tick exampleClock exampleWorker 3 \<le>s tick exampleClock exampleWorker 4
   \<and> tick exampleClock exampleWorker 4 \<le>s tick exampleClock exampleWorker 5
   \<and> tickInRange exampleWorker (tick exampleClock exampleWorker 1)
   \<and> tickInRange exampleWorker (tick exampleClock exampleWorker 5)
   \<and> sorted_wrt (\<le>s) [3, 10, 11 :: int64]"
proof -
  have w: "unat (1 :: uint64) + unat (1 :: uint64) + unat (3 :: uint64) + 1 \<le> 64" by simp
  have i: "0 \<le> sint (1 :: int64)" "sint (1 :: int64) < 2 ^ unat (1 :: uint64)" by simp_all
  have g: "NextID exampleClock = UnsafeNextID exampleClock
      \<or> NextID exampleClock = NextID exampleClock" by simp
  have "\<not> mutex exampleWorker" by (simp add: exampleWorker_def)
  then have "calls (NextID exampleClock) (Suc (Suc (Suc 0))) exampleWorker (Suc 0)
       = calls (UnsafeNextID exampleClock) (Suc (Suc (Suc 0))) exampleWorker (Suc 0)"
    by (rule calls_NextID)
  with example_calls
  have c: "calls (NextID exampleClock) (Suc (Suc (Suc 0))) exampleWorker (Suc 0)
       = Some (Inr [3, 10, 11], exampleWorker\<lparr>Sequence := 1, LastTimeStamp := 102\<rparr>, 6)"
    by (simp only:)
  from ids_nondecreasing [OF example_NewWorker w i g c example_clock_facts]
  have "sorted_wrt (\<le>s) [3, 10, 11 :: int64]" .
  moreover have "tick exampleClock exampleWorker 0 \<le>s tick exampleClock exampleWorker 3"
    "tick exampleClock exampleWorker 3 \<le>s tick exampleClock exampleWorker 4"
    "tick exampleClock exampleWorker 4 \<le>s tick exampleClock exampleWorker 5"
    "tickInRange exampleWorker (tick exampleClock exampleWorker 1)"
    "tickInRange exampleWorker (tick exampleClock exampleWorker 5)"
    by (simp_all add: tick_def exampleClock_def exampleWorker_def tickInRange_def word_sle_eq)
  ultimately show ?thesis using example_NewWorker w i c by blast
qed

text \<open>
  Without these conditions a call returns a smaller id than the call before it, with
  ticks that never decrease: the tick \<open>2 ^ 45\<close> reaches the sign bit; the worker id 32
  and the widths 30, 40, 1 lose the tick, and the sequence starts again at 0.
\<close>

theorem ids_decrease_counterexample:
  "NewWorker overflowClock 0 0 5 13 41 1 0 = Inr (tenBitsWorker 0, Suc 0)
   \<and> tick overflowClock (tenBitsWorker 0) 0 \<le>s tick overflowClock (tenBitsWorker 0) 1
   \<and> tick overflowClock (tenBitsWorker 0) 1 \<le>s tick overflowClock (tenBitsWorker 0) 2
   \<and> UnsafeNextID overflowClock (tenBitsWorker 0) (Suc 0)
       = Some (Inr 262144, tenBitsWorker 0\<lparr>Sequence := 0, LastTimeStamp := 1\<rparr>, 2)
   \<and> UnsafeNextID overflowClock (tenBitsWorker 0\<lparr>Sequence := 0, LastTimeStamp := 1\<rparr>) 2
       = Some (Inr 9223372036854775808,
               tenBitsWorker 0\<lparr>Sequence := 0, LastTimeStamp := 35184372088832\<rparr>, 3)
   \<and> \<not> (262144 :: int64) \<le>s 9223372036854775808
   \<and> NewWorker stepClock 32 0 5 13 41 1 0 = Inr (tenBitsWorker 32, Suc 0)
   \<and> tick stepClock (tenBitsWorker 32) 0 \<le>s tick stepClock (tenBitsWorker 32) 1
   \<and> tick stepClock (tenBitsWorker 32) 1 \<le>s tick stepClock (tenBitsWorker 32) 2
   \<and> UnsafeNextID stepClock (tenBitsWorker 32) (Suc 0)
       = Some (Inr 262145, tenBitsWorker 32\<lparr>Sequence := 1\<rparr>, 2)
   \<and> UnsafeNextID stepClock (tenBitsWorker 32\<lparr>Sequence := 1\<rparr>) 2
       = Some (Inr 262144, tenBitsWorker 32\<lparr>Sequence := 0, LastTimeStamp := 1\<rparr>, 3)
   \<and> \<not> (262145 :: int64) \<le>s 262144
   \<and> NewWorker stepClock 0 0 30 40 1 1 0 = Inr (wideWorker, Suc 0)
   \<and> tick stepClock wideWorker 0 \<le>s tick stepClock wideWorker 1
   \<and> tick stepClock wideWorker 1 \<le>s tick stepClock wideWorker 2
   \<and> UnsafeNextID stepClock wideWorker (Suc 0) = Some (Inr 1, wideWorker\<lparr>Sequence := 1\<rparr>, 2)
   \<and> UnsafeNextID stepClock (wideWorker\<lparr>Sequence := 1\<rparr>) 2
       = Some (Inr 0, wideWorker\<lparr>Sequence := 0, LastTimeStamp := 1\<rparr>, 3)
   \<and> \<not> (1 :: int64) \<le>s 0"
proof -
  have a: "Frequency (tenBitsWorker 32) = 1" "Frequency wideWorker = 1"
    by (simp_all add: tenBitsWorker_def wideWorker_def)
  have "\<not> (262144 :: int64) \<le>s 9223372036854775808" "\<not> (262145 :: int64) \<le>s 262144"
    "\<not> (1 :: int64) \<le>s 0"
    by (simp_all add: word_sle_eq)
  with overflow_NewWorker overflow_ticks overflow_call_1 overflow_call_2
    wide_id_NewWorker wide_id_call_1 wide_id_call_2
    wide_NewWorker wide_call_1 wide_call_2 step_ticks [OF a(1)] step_ticks [OF a(2)]
  show ?thesis by blast
qed

section \<open>The sequence within one tick\<close>

subsection \<open>The Workers of a run\<close>

lemma callStates_position:
  "callStates (UnsafeNextID now) n w p = Some (r, w', p') \<Longrightarrow> p \<le> p'"
proof (induction n arbitrary: w p r)
  case 0
  then show ?case by simp
next
  case (Suc n)
  from Suc.prems obtain r1 w1 p1 where u: "UnsafeNextID now w p = Some (r1, w1, p1)"
    by (auto split: option.splits)
  then have lt: "p < p1" by (rule UnsafeNextID_position)
  show ?case
  proof (cases r1)
    case (Inl e)
    with Suc.prems u lt show ?thesis by simp
  next
    case (Inr i)
    with Suc.prems u obtain r2 where "callStates (UnsafeNextID now) n w1 p1 = Some (r2, w', p')"
      by (auto split: option.splits sum.splits)
    then have "p1 \<le> p'" by (rule Suc.IH)
    with lt show ?thesis by simp
  qed
qed

lemma callStates_NextID:
  "\<not> mutex w \<Longrightarrow> callStates (NextID now) n w p = callStates (UnsafeNextID now) n w p"
proof (induction n arbitrary: w p)
  case 0
  then show ?case by simp
next
  case (Suc n)
  then have e: "NextID now w p = UnsafeNextID now w p" by (simp add: NextID_unlocked)
  show ?case
  proof (cases "UnsafeNextID now w p")
    case None
    with e show ?thesis by simp
  next
    case (Some y)
    obtain r w1 p1 where y: "y = (r, w1, p1)" by (cases y)
    with Some have "mutex w1 = mutex w" using UnsafeNextID_frame by blast
    with Suc.prems have "\<not> mutex w1" by simp
    then have "callStates (NextID now) n w1 p1 = callStates (UnsafeNextID now) n w1 p1"
      by (rule Suc.IH)
    with e Some y show ?thesis by (cases r) simp_all
  qed
qed

lemma precedes_irrefl: "\<not> precedes w w"
  by (simp add: precedes_def)

lemma precedes_pair:
  "precedes v w \<Longrightarrow> (LastTimeStamp v, Sequence v) \<noteq> (LastTimeStamp w, Sequence w)"
  by (auto simp: precedes_def)

text \<open>
  Along a run with ticks that never decrease, the pair of tick and sequence moves up
  with every call.
\<close>

lemma callStates_precede:
  assumes "callStates (UnsafeNextID now) n w p = Some (Inr vs, w', p')"
    and "sequenceInRange w" and "unat (SequenceBits w) < 64"
    and "LastTimeStamp w = tick now w q" and "q < p"
    and "\<forall>i j. q \<le> i \<and> i \<le> j \<and> j < p' \<longrightarrow> tick now w i \<le>s tick now w j"
  shows "(\<forall>v\<in>set vs. v = w' \<or> precedes v w')
    \<and> (w' = w \<or> precedes w w')
    \<and> sequenceInRange w' \<and> sameConfig w w'
    \<and> (\<exists>q'. q \<le> q' \<and> q' < p' \<and> LastTimeStamp w' = tick now w q')"
  using assms
proof (induction n arbitrary: w p q vs)
  case 0
  then show ?case by (auto simp: sameConfig_refl)
next
  case (Suc n)
  note seq = Suc.prems(2) and sb = Suc.prems(3) and last = Suc.prems(4) and qp = Suc.prems(5)
    and mono = Suc.prems(6)
  from Suc.prems(1) obtain i w1 p1 vs' where u: "UnsafeNextID now w p = Some (Inr i, w1, p1)"
    and c: "callStates (UnsafeNextID now) n w1 p1 = Some (Inr vs', w', p')"
    and vs: "vs = w1 # vs'"
    by (auto split: option.splits sum.splits)
  from u have pp1: "p < p1" by (rule UnsafeNextID_position)
  from c have p1p': "p1 \<le> p'" by (rule callStates_position)
  from qp pp1 p1p' have "q \<le> q \<and> q \<le> p \<and> p < p'" by arith
  with mono have "tick now w q \<le>s tick now w p" by blast
  with last have nd: "LastTimeStamp w \<le>s tick now w p" by simp
  from UnsafeNextID_progress [OF u seq sb nd]
  have last1: "LastTimeStamp w1 = tick now w (p1 - 1)" and prec: "precedes w w1" by simp_all
  from u have same: "sameConfig w w1" using UnsafeNextID_frame by blast
  then have sb1: "unat (SequenceBits w1) < 64" using sb by (simp add: sameConfig_def)
  from seq have "0 \<le> sint (Sequence w)" by (simp add: sequenceInRange_def)
  with u have seq1: "sequenceInRange w1" by (rule UnsafeNextID_sequenceInRange)
  have IH: "(\<forall>v\<in>set vs'. v = w' \<or> precedes v w')
    \<and> (w' = w1 \<or> precedes w1 w')
    \<and> sequenceInRange w' \<and> sameConfig w1 w'
    \<and> (\<exists>q'. p1 - 1 \<le> q' \<and> q' < p' \<and> LastTimeStamp w' = tick now w1 q')"
  proof (rule Suc.IH [OF c seq1 sb1, of "p1 - 1"])
    show "LastTimeStamp w1 = tick now w1 (p1 - 1)" using last1 same by (simp add: tick_cong)
    show "p1 - 1 < p1" using pp1 by arith
    show "\<forall>i j. p1 - 1 \<le> i \<and> i \<le> j \<and> j < p' \<longrightarrow> tick now w1 i \<le>s tick now w1 j"
    proof (intro allI impI)
      fix i j assume "p1 - 1 \<le> i \<and> i \<le> j \<and> j < p'"
      with qp pp1 have "q \<le> i \<and> i \<le> j \<and> j < p'" by arith
      with mono have "tick now w i \<le>s tick now w j" by blast
      then show "tick now w1 i \<le>s tick now w1 j" by (simp add: tick_cong [OF same])
    qed
  qed
  from IH prec have end_w: "precedes w w'" using precedes_trans by blast
  from IH same have same': "sameConfig w w'" using sameConfig_trans by blast
  from IH obtain q' where q': "p1 - 1 \<le> q'" "q' < p'" "LastTimeStamp w' = tick now w1 q'"
    by blast
  from q'(1) qp pp1 have "q \<le> q'" by arith
  with q' have ex: "\<exists>q'. q \<le> q' \<and> q' < p' \<and> LastTimeStamp w' = tick now w q'"
    using tick_cong [OF same] by auto
  from IH end_w same' ex show ?case unfolding vs by auto
qed

lemma callStates_sameConfig:
  "callStates (UnsafeNextID now) n w p = Some (r, w', p') \<Longrightarrow> sameConfig w w'"
proof (induction n arbitrary: w p r)
  case 0
  then show ?case by (simp add: sameConfig_refl)
next
  case (Suc n)
  from Suc.prems obtain r1 w1 p1 where u: "UnsafeNextID now w p = Some (r1, w1, p1)"
    by (auto split: option.splits)
  then have same: "sameConfig w w1" using UnsafeNextID_frame by blast
  show ?case
  proof (cases r1)
    case (Inl e)
    with Suc.prems u same show ?thesis by simp
  next
    case (Inr i)
    with Suc.prems u obtain r2 where "callStates (UnsafeNextID now) n w1 p1 = Some (r2, w', p')"
      by (auto split: option.splits sum.splits)
    then have "sameConfig w1 w'" by (rule Suc.IH)
    with same show ?thesis by (rule sameConfig_trans)
  qed
qed

lemma tick_window:
  assumes "saneConfig w" and "tickInRange w t"
  shows "sint (t - CustomEpoch w) = sint t - sint (CustomEpoch w)"
    and "0 \<le> sint (t - CustomEpoch w)"
    and "sint (t - CustomEpoch w) < 2 ^ unat (TimeStampBits w)"
proof -
  have "unat (SequenceBits w) + unat (IDBits w) + unat (TimeStampBits w) \<le> 63"
    using assms(1) by (rule saneConfig_shifts)
  then have c: "unat (TimeStampBits w) \<le> 63" by simp
  from assms(2) show d: "sint (t - CustomEpoch w) = sint t - sint (CustomEpoch w)"
    using c by (intro sint_diff_in_range [of _ _ "unat (TimeStampBits w)"])
      (simp_all add: tickInRange_def)
  from assms(2) show "0 \<le> sint (t - CustomEpoch w)"
    "sint (t - CustomEpoch w) < 2 ^ unat (TimeStampBits w)"
    by (simp_all add: d tickInRange_def)
qed

lemma timestampField_composed:
  assumes "saneConfig w" and "sequenceInRange w" and "tickInRange w t"
  shows "sint (timestampField w (composeID w t)) = sint t - sint (CustomEpoch w)"
  using composed_fields(3) [OF assms(1,2) tick_window(2,3) [OF assms(1,3)]]
    tick_window(1) [OF assms(1,3)]
  by simp

text \<open>
  Two ids of one sane configuration, composed from ticks in the window: the
  timestamp fields compare as the ticks do.
\<close>

lemma timestampField_later:
  assumes sane: "saneConfig w" and seq: "sequenceInRange w"
    and same: "sameConfig w w'" and seq': "sequenceInRange w'"
    and r: "tickInRange w (LastTimeStamp w)" "tickInRange w (LastTimeStamp w')"
    and lt: "LastTimeStamp w <s LastTimeStamp w'"
  shows "timestampField w (composeID w (LastTimeStamp w))
           <s timestampField w (composeID w' (LastTimeStamp w'))"
proof -
  from same sane have sane': "saneConfig w'" by (rule saneConfig_cong)
  from same have eq: "CustomEpoch w' = CustomEpoch w" "TimeStampShift w' = TimeStampShift w"
    "TimeStampBits w' = TimeStampBits w"
    by (simp_all add: sameConfig_def)
  from r(2) have r': "tickInRange w' (LastTimeStamp w')" by (simp add: tickInRange_cong [OF same])
  have f: "timestampField w i = timestampField w' i" for i
    by (simp add: timestampField_def eq)
  have 1: "sint (timestampField w (composeID w (LastTimeStamp w)))
      = sint (LastTimeStamp w) - sint (CustomEpoch w)"
    using sane seq r(1) by (rule timestampField_composed)
  have 2: "sint (timestampField w (composeID w' (LastTimeStamp w')))
      = sint (LastTimeStamp w') - sint (CustomEpoch w)"
    using timestampField_composed [OF sane' seq' r'] by (simp add: f eq)
  from lt show ?thesis by (simp add: word_sless_alt 1 2)
qed

subsection \<open>Example runs with no sequence bits\<close>

lemma quo64_pair [simp]: "quo64 1040 10 = 104"
  by (simp add: quo64_def signed_divide_int_def)

lemma rem64_one [simp]: "rem64 1 1 = 0"
  by (simp add: rem64_def signed_modulo_int_def)

lemma pair_NewWorker: "NewWorker pairClock 0 100 0 0 5 10 0 = Inr (pairWorker, Suc 0)"
  by (simp add: NewWorker_def Time_def pairClock_def pairWorker_def Let_def)

lemma pair_call_1:
  "UnsafeNextID pairClock pairWorker (Suc 0)
     = Some (Inr 2, pairWorker\<lparr>Sequence := 0, LastTimeStamp := 102\<rparr>, 3)"
proof -
  have k: "waited pairClock pairWorker (Suc (Suc 0)) 2"
    by (auto simp: waited_def pairWorker_def tick_def pairClock_def word_sless_alt)
  have "UnsafeNextID pairClock pairWorker (Suc 0) =
     Some (Inr (composeID (pairWorker\<lparr>Sequence := 0, LastTimeStamp := tick pairClock pairWorker 2\<rparr>)
                  (tick pairClock pairWorker 2)),
           pairWorker\<lparr>Sequence := 0, LastTimeStamp := tick pairClock pairWorker 2\<rparr>, Suc 2)"
    by (rule UnsafeNextID_exhausted [OF _ _ _ _ k])
       (simp_all add: pairWorker_def shl64_def tick_def pairClock_def)
  then show ?thesis by (simp add: composeID_def shl64_def pairWorker_def tick_def pairClock_def)
qed

lemma pair_call_2:
  "UnsafeNextID pairClock (pairWorker\<lparr>Sequence := 0, LastTimeStamp := 102\<rparr>) 3
     = Some (Inr 4, pairWorker\<lparr>Sequence := 0, LastTimeStamp := 104\<rparr>, 5)"
proof -
  let ?w = "pairWorker\<lparr>Sequence := 0, LastTimeStamp := 102\<rparr>"
  have k: "waited pairClock ?w (Suc 3) 4"
    by (auto simp: waited_def pairWorker_def tick_def pairClock_def word_sless_alt)
  have "UnsafeNextID pairClock ?w 3 =
     Some (Inr (composeID (?w\<lparr>Sequence := 0, LastTimeStamp := tick pairClock ?w 4\<rparr>)
                  (tick pairClock ?w 4)),
           ?w\<lparr>Sequence := 0, LastTimeStamp := tick pairClock ?w 4\<rparr>, Suc 4)"
    by (rule UnsafeNextID_exhausted [OF _ _ _ _ k])
       (simp_all add: pairWorker_def shl64_def tick_def pairClock_def)
  then show ?thesis by (simp add: composeID_def shl64_def pairWorker_def tick_def pairClock_def)
qed

lemma pair_generator:
  "generator pairClock (pairWorker\<lparr>Sequence := 0, LastTimeStamp := 102\<rparr>) 3"
proof -
  have "generator pairClock pairWorker (Suc 0)"
    using pair_NewWorker by (rule generator.built)
  from this pair_call_1 show ?thesis by (rule generator.unsafe)
qed

lemma pair_ticks:
  "a \<le> b \<Longrightarrow> tick pairClock (pairWorker\<lparr>Sequence := 0, LastTimeStamp := 102\<rparr>) a
      \<le>s tick pairClock (pairWorker\<lparr>Sequence := 0, LastTimeStamp := 102\<rparr>) b"
  by (simp add: tick_def pairClock_def pairWorker_def word_sle_eq)

text \<open>On \<open>stillClock\<close> no wait ends.\<close>

lemma still_NewWorker: "NewWorker stillClock 0 100 0 0 5 10 0 = Inr (pairWorker, Suc 0)"
  by (simp add: NewWorker_def Time_def stillClock_def pairWorker_def Let_def)

lemma still_waits: "\<not> waited stillClock pairWorker p k"
  by (simp add: waited_def tick_def stillClock_def pairWorker_def)

text \<open>Runs on \<open>lateClock\<close>.\<close>

lemma late_NewWorker:
  "NewWorker (lateClock t) 7 5 64 0 1 1 0 = Inr (fieldWorker 7 64 1, Suc 0)"
  "NewWorker (lateClock t) 96 5 5 0 6 1 0 = Inr (fieldWorker 96 5 6, Suc 0)"
  "NewWorker (lateClock t) 0 5 5 0 6 1 0 = Inr (fieldWorker 0 5 6, Suc 0)"
  by (simp_all add: NewWorker_def Time_def lateClock_def fieldWorker_def Let_def)

lemma late_call_1:
  "UnsafeNextID (lateClock t) (fieldWorker i b c) (Suc 0)
     = Some (Inr (composeID (fieldWorker i b c) 5),
             fieldWorker i b c\<lparr>Sequence := 0, LastTimeStamp := 5\<rparr>, 2)"
proof -
  let ?w = "fieldWorker i b c"
  have "UnsafeNextID (lateClock t) ?w (Suc 0) =
     Some (Inr (composeID (?w\<lparr>Sequence := 0, LastTimeStamp := tick (lateClock t) ?w (Suc 0)\<rparr>)
                  (tick (lateClock t) ?w (Suc 0))),
           ?w\<lparr>Sequence := 0, LastTimeStamp := tick (lateClock t) ?w (Suc 0)\<rparr>, Suc (Suc 0))"
    by (rule UnsafeNextID_new_tick)
       (simp_all add: fieldWorker_def tick_def lateClock_def word_sless_alt)
  then show ?thesis
    by (simp add: composeID_def fieldWorker_def tick_def lateClock_def)
qed

lemma late_call_2:
  assumes "5 <s t"
  shows "UnsafeNextID (lateClock t) (fieldWorker i b c\<lparr>Sequence := 0, LastTimeStamp := 5\<rparr>) 2
     = Some (Inr (composeID (fieldWorker i b c) t),
             fieldWorker i b c\<lparr>Sequence := 0, LastTimeStamp := t\<rparr>, 4)"
proof -
  let ?w = "fieldWorker i b c\<lparr>Sequence := 0, LastTimeStamp := 5\<rparr>"
  have k: "waited (lateClock t) ?w (Suc 2) 3"
    using assms by (auto simp: waited_def fieldWorker_def tick_def lateClock_def)
  have "UnsafeNextID (lateClock t) ?w 2 =
     Some (Inr (composeID (?w\<lparr>Sequence := 0, LastTimeStamp := tick (lateClock t) ?w 3\<rparr>)
                  (tick (lateClock t) ?w 3)),
           ?w\<lparr>Sequence := 0, LastTimeStamp := tick (lateClock t) ?w 3\<rparr>, Suc 3)"
    by (rule UnsafeNextID_exhausted [OF _ _ _ _ k])
       (simp_all add: fieldWorker_def shl64_def tick_def lateClock_def)
  then show ?thesis
    by (simp add: composeID_def fieldWorker_def tick_def lateClock_def)
qed

lemma back_NewWorker: "NewWorker backClock 0 0 0 0 5 1 0 = Inr (backWorker, Suc 0)"
  by (simp add: NewWorker_def Time_def backClock_def backWorker_def Let_def)

lemma back_call_1:
  "UnsafeNextID backClock backWorker (Suc 0)
     = Some (Inr 5, backWorker\<lparr>Sequence := 0, LastTimeStamp := 5\<rparr>, 2)"
proof -
  let ?w = "backWorker"
  have "UnsafeNextID backClock ?w (Suc 0) =
     Some (Inr (composeID (?w\<lparr>Sequence := 0, LastTimeStamp := tick backClock ?w (Suc 0)\<rparr>)
                  (tick backClock ?w (Suc 0))),
           ?w\<lparr>Sequence := 0, LastTimeStamp := tick backClock ?w (Suc 0)\<rparr>, Suc (Suc 0))"
    by (rule UnsafeNextID_new_tick)
       (simp_all add: backWorker_def tick_def backClock_def word_sless_alt)
  then show ?thesis
    by (simp add: composeID_def shl64_def backWorker_def tick_def backClock_def)
qed

lemma back_call_2:
  "UnsafeNextID backClock (backWorker\<lparr>Sequence := 0, LastTimeStamp := 5\<rparr>) 2
     = Some (Inr 3, backWorker\<lparr>Sequence := 0, LastTimeStamp := 3\<rparr>, 4)"
proof -
  let ?w = "backWorker\<lparr>Sequence := 0, LastTimeStamp := 5\<rparr>"
  have k: "waited backClock ?w (Suc 2) 3"
    by (auto simp: waited_def backWorker_def tick_def backClock_def word_sless_alt)
  have "UnsafeNextID backClock ?w 2 =
     Some (Inr (composeID (?w\<lparr>Sequence := 0, LastTimeStamp := tick backClock ?w 2\<rparr>)
                  (tick backClock ?w 2)),
           ?w\<lparr>Sequence := 0, LastTimeStamp := tick backClock ?w 2\<rparr>, Suc 3)"
    by (rule UnsafeNextID_drift [OF _ _ k])
       (simp_all add: backWorker_def tick_def backClock_def word_sless_alt)
  then show ?thesis
    by (simp add: composeID_def shl64_def backWorker_def tick_def backClock_def)
qed

lemma back_call_3:
  "UnsafeNextID backClock (backWorker\<lparr>Sequence := 0, LastTimeStamp := 3\<rparr>) 4
     = Some (Inr 5, backWorker\<lparr>Sequence := 0, LastTimeStamp := 5\<rparr>, 6)"
proof -
  let ?w = "backWorker\<lparr>Sequence := 0, LastTimeStamp := 3\<rparr>"
  have k: "waited backClock ?w (Suc 4) 5"
    by (auto simp: waited_def backWorker_def tick_def backClock_def word_sless_alt)
  have "UnsafeNextID backClock ?w 4 =
     Some (Inr (composeID (?w\<lparr>Sequence := 0, LastTimeStamp := tick backClock ?w 5\<rparr>)
                  (tick backClock ?w 5)),
           ?w\<lparr>Sequence := 0, LastTimeStamp := tick backClock ?w 5\<rparr>, Suc 5)"
    by (rule UnsafeNextID_exhausted [OF _ _ _ _ k])
       (simp_all add: backWorker_def shl64_def tick_def backClock_def)
  then show ?thesis
    by (simp add: composeID_def shl64_def backWorker_def tick_def backClock_def)
qed

lemma back_generator:
  "generator backClock (backWorker\<lparr>Sequence := 0, LastTimeStamp := 3\<rparr>) 4"
proof -
  have "generator backClock backWorker (Suc 0)"
    using back_NewWorker by (rule generator.built)
  from this back_call_1
  have "generator backClock (backWorker\<lparr>Sequence := 0, LastTimeStamp := 5\<rparr>) 2"
    by (rule generator.unsafe)
  from this back_call_2 show ?thesis by (rule generator.unsafe)
qed

lemma back_states:
  "callStates (UnsafeNextID backClock) (Suc (Suc 0)) backWorker (Suc 0)
     = Some (Inr [backWorker\<lparr>Sequence := 0, LastTimeStamp := 5\<rparr>,
                  backWorker\<lparr>Sequence := 0, LastTimeStamp := 3\<rparr>],
             backWorker\<lparr>Sequence := 0, LastTimeStamp := 3\<rparr>, 4)"
  by (simp add: back_call_1 back_call_2)

lemma pair_states:
  "callStates (UnsafeNextID pairClock) (Suc 0) pairWorker (Suc 0)
     = Some (Inr [pairWorker\<lparr>Sequence := 0, LastTimeStamp := 102\<rparr>],
             pairWorker\<lparr>Sequence := 0, LastTimeStamp := 102\<rparr>, 3)"
  by (simp add: pair_call_1)

text \<open>The ids and the timestamp fields on \<open>lateClock\<close>.\<close>

lemma late_ids:
  "composeID (fieldWorker 7 64 1) 5 = 7" "composeID (fieldWorker 7 64 1) 6 = 7"
  "composeID (fieldWorker 96 5 6) 5 = 96" "composeID (fieldWorker 96 5 6) 6 = 96"
  "composeID (fieldWorker 0 5 6) 5 = 0" "composeID (fieldWorker 0 5 6) 69 = 2048"
  by (simp_all add: composeID_def shl64_def fieldWorker_def)

lemma late_fields:
  "timestampField (fieldWorker 7 64 1\<lparr>Sequence := 0, LastTimeStamp := 5\<rparr>) 7 = 0"
  "timestampField (fieldWorker 96 5 6\<lparr>Sequence := 0, LastTimeStamp := 5\<rparr>) 96 = 3"
  "timestampField (fieldWorker 0 5 6\<lparr>Sequence := 0, LastTimeStamp := 5\<rparr>) 0 = 0"
  "timestampField (fieldWorker 0 5 6\<lparr>Sequence := 0, LastTimeStamp := 5\<rparr>) 2048 = 0"
  by (simp_all add: timestampField_def fieldWorker_def mask_numeral)

lemma pair_fields:
  "timestampField (pairWorker\<lparr>Sequence := 0, LastTimeStamp := 102\<rparr>) 2 = 2"
  "timestampField (pairWorker\<lparr>Sequence := 0, LastTimeStamp := 102\<rparr>) 4 = 4"
  by (simp_all add: timestampField_def pairWorker_def mask_numeral)

subsection \<open>The same-tick call\<close>

text \<open>
  C5, as amended. A call of \<open>UnsafeNextID\<close> on a generator with \<open>SequenceBits\<close> below
  64 that reads the recorded tick: the new sequence \<open>s\<close> is the old one plus 1 modulo
  \<open>2 ^ SequenceBits\<close>. If \<open>s\<close> is not 0 the call returns at once, with the same
  tick. If \<open>s\<close> is 0 the call reads the clock until a read \<open>k\<close> gives a tick
  strictly later than the recorded one, returns the id of that tick with sequence 0
  and records the tick; if no read ever does, the call never returns. With
  \<open>SequenceBits = 0\<close> the sequence always wraps and the id is composed from a strictly
  later tick; then the timestamp field of the id strictly exceeds the timestamp field
  of the id \<open>i0\<close> of the previous call, provided the three widths and the sign bit
  fit into 64 bits, the worker id fits its field and both ticks lie in the window of
  the timestamp field. Last, in a run from \<open>NewWorker\<close> on whose clock reads the tick
  never decreases, the pair of tick and sequence that the call records differs from
  the pair of every earlier call of the run.
\<close>

theorem same_tick_sequence:
  assumes g: "generator now w p" and t: "tick now w p = LastTimeStamp w"
    and sb: "unat (SequenceBits w) < 64"
    and s: "s = rem64 (Sequence w + 1) (shl64 1 (SequenceBits w))"
  shows "sint s = (sint (Sequence w) + 1) mod 2 ^ unat (SequenceBits w)
    \<and> (s \<noteq> 0 \<longrightarrow>
         UnsafeNextID now w p =
           Some (Inr (composeID (w\<lparr>Sequence := s\<rparr>) (LastTimeStamp w)), w\<lparr>Sequence := s\<rparr>, Suc p))
    \<and> (s = 0 \<longrightarrow>
         (\<forall>k. waited now w (Suc p) k \<longrightarrow>
            LastTimeStamp w <s tick now w k
            \<and> UnsafeNextID now w p =
                Some (Inr (composeID (w\<lparr>Sequence := 0, LastTimeStamp := tick now w k\<rparr>)
                             (tick now w k)),
                      w\<lparr>Sequence := 0, LastTimeStamp := tick now w k\<rparr>, Suc k))
         \<and> ((\<forall>k. \<not> waited now w (Suc p) k) \<longrightarrow> UnsafeNextID now w p = None))
    \<and> (unat (SequenceBits w) = 0 \<longrightarrow>
         s = 0
         \<and> (\<forall>i w' p'. UnsafeNextID now w p = Some (Inr i, w', p') \<longrightarrow>
               LastTimeStamp w <s LastTimeStamp w' \<and> Sequence w' = 0
               \<and> i = composeID w' (LastTimeStamp w')))
    \<and> (unat (SequenceBits w) = 0
        \<and> unat (IDBits w) + unat (SequenceBits w) + unat (TimeStampBits w) + 1 \<le> 64
        \<and> 0 \<le> sint (ID w) \<and> sint (ID w) < 2 ^ unat (IDBits w) \<longrightarrow>
         (\<forall>w0 p0 i0 i w' p'.
             (UnsafeNextID now w0 p0 = Some (Inr i0, w, p)
                \<or> NextID now w0 p0 = Some (Inr i0, w, p))
           \<and> (UnsafeNextID now w p = Some (Inr i, w', p')
                \<or> NextID now w p = Some (Inr i, w', p'))
           \<and> tickInRange w (LastTimeStamp w) \<and> tickInRange w (LastTimeStamp w')
           \<longrightarrow> timestampField w i0 <s timestampField w i))
    \<and> (\<forall>id' epoch idBits sequenceBits timestampBits frequency q w0 p0 gen n vs i w' p'.
           NewWorker now id' epoch idBits sequenceBits timestampBits frequency q = Inr (w0, p0)
         \<and> (gen = UnsafeNextID now \<or> gen = NextID now)
         \<and> callStates gen n w0 p0 = Some (Inr vs, w, p)
         \<and> (UnsafeNextID now w p = Some (Inr i, w', p')
              \<or> NextID now w p = Some (Inr i, w', p'))
         \<and> (\<forall>a b. q \<le> a \<and> a \<le> b \<and> b < p' \<longrightarrow> tick now w a \<le>s tick now w b)
         \<longrightarrow> (\<forall>v\<in>set vs. (LastTimeStamp v, Sequence v) \<noteq> (LastTimeStamp w', Sequence w')))"
proof -
  from generator_invariant [OF g] have f: "Frequency w \<noteq> 0" and sr: "sequenceInRange w"
    by simp_all
  from sr have seq: "0 \<le> sint (Sequence w)" by (simp add: sequenceInRange_def)
  let ?s = "rem64 (Sequence w + 1) (shl64 1 (SequenceBits w))"
  have m: "shl64 1 (SequenceBits w) \<noteq> 0" using sb by (simp add: shl64_one)
  have v: "sint ?s = (sint (Sequence w) + 1) mod 2 ^ unat (SequenceBits w)"
    using seq sb by (rule rem64_increment)
  have same: "UnsafeNextID now w p =
      Some (Inr (composeID (w\<lparr>Sequence := ?s\<rparr>) (LastTimeStamp w)), w\<lparr>Sequence := ?s\<rparr>, Suc p)"
    if "?s \<noteq> 0"
    using UnsafeNextID_same_tick [OF f t [symmetric] m refl that] by (simp only: t)
  have wrap: "LastTimeStamp w <s tick now w k
      \<and> UnsafeNextID now w p =
          Some (Inr (composeID (w\<lparr>Sequence := 0, LastTimeStamp := tick now w k\<rparr>) (tick now w k)),
                w\<lparr>Sequence := 0, LastTimeStamp := tick now w k\<rparr>, Suc k)"
    if "?s = 0" "waited now w (Suc p) k" for k
    using UnsafeNextID_exhausted [OF f t [symmetric] m that] that(2) by (simp add: waited_def)
  have never: "UnsafeNextID now w p = None" if "?s = 0" "\<forall>k. \<not> waited now w (Suc p) k"
    using f t [symmetric] m that by (rule UnsafeNextID_exhausted_forever)
  have zero: "?s = 0" if "unat (SequenceBits w) = 0"
    using v that by (simp add: signed_eq_0_iff)
  have later: "LastTimeStamp w <s LastTimeStamp w' \<and> Sequence w' = 0
      \<and> i = composeID w' (LastTimeStamp w')"
    if z: "unat (SequenceBits w) = 0" and r: "UnsafeNextID now w p = Some (Inr i, w', p')"
    for i w' p'
  proof (cases "\<exists>k. waited now w (Suc p) k")
    case True
    then obtain k where "waited now w (Suc p) k" ..
    from wrap [OF zero [OF z] this] r show ?thesis by simp
  next
    case False
    with never [OF zero [OF z]] r show ?thesis by simp
  qed
  have field: "timestampField w i0 <s timestampField w i"
    if z: "unat (SequenceBits w) = 0"
      and wd: "unat (IDBits w) + unat (SequenceBits w) + unat (TimeStampBits w) + 1 \<le> 64"
      and id: "0 \<le> sint (ID w)" "sint (ID w) < 2 ^ unat (IDBits w)"
      and prev: "UnsafeNextID now w0 p0 = Some (Inr i0, w, p)
                \<or> NextID now w0 p0 = Some (Inr i0, w, p)"
      and cur: "UnsafeNextID now w p = Some (Inr i, w', p')
                \<or> NextID now w p = Some (Inr i, w', p')"
      and r: "tickInRange w (LastTimeStamp w)" "tickInRange w (LastTimeStamp w')"
    for w0 p0 i0 i w' p'
  proof -
    from g wd id have sane: "saneConfig w" by (rule generator_sane)
    from prev have "UnsafeNextID now w0 p0 = Some (Inr i0, w, p)" by (rule generated_id)
    then have i0: "i0 = composeID w (LastTimeStamp w)" by (rule UnsafeNextID_Inr)
    from cur have u: "UnsafeNextID now w p = Some (Inr i, w', p')" by (rule generated_id)
    then have i: "i = composeID w' (LastTimeStamp w')" by (rule UnsafeNextID_Inr)
    from u have sc: "sameConfig w w'" using UnsafeNextID_frame by blast
    from u seq have seq': "sequenceInRange w'" by (rule UnsafeNextID_sequenceInRange)
    from later [OF z u] have "LastTimeStamp w <s LastTimeStamp w'" by simp
    with sane sr sc seq' r show ?thesis unfolding i0 i by (rule timestampField_later)
  qed
  have pairs: "\<forall>v\<in>set vs. (LastTimeStamp v, Sequence v) \<noteq> (LastTimeStamp w', Sequence w')"
    if new: "NewWorker now id' epoch idBits sequenceBits timestampBits frequency q = Inr (w0, p0)"
      and gen: "gen = UnsafeNextID now \<or> gen = NextID now"
      and run: "callStates gen n w0 p0 = Some (Inr vs, w, p)"
      and cur: "UnsafeNextID now w p = Some (Inr i, w', p')
              \<or> NextID now w p = Some (Inr i, w', p')"
      and mono: "\<forall>a b. q \<le> a \<and> a \<le> b \<and> b < p' \<longrightarrow> tick now w a \<le>s tick now w b"
    for id' epoch idBits sequenceBits timestampBits frequency q w0 p0 gen n vs i w' p'
  proof -
    note N = NewWorker_Inr [OF new]
    from N(4) gen have "callStates gen n w0 p0 = callStates (UnsafeNextID now) n w0 p0"
      using callStates_NextID by auto
    with run have c: "callStates (UnsafeNextID now) n w0 p0 = Some (Inr vs, w, p)" by simp
    then have sc: "sameConfig w0 w" by (rule callStates_sameConfig)
    then have sb0: "unat (SequenceBits w0) < 64" using sb by (simp add: sameConfig_def)
    have seq0: "sequenceInRange w0" by (simp add: sequenceInRange_def N)
    from cur have u: "UnsafeNextID now w p = Some (Inr i, w', p')" by (rule generated_id)
    then have pp': "p < p'" by (rule UnsafeNextID_position)
    have mono0: "\<forall>a b. q \<le> a \<and> a \<le> b \<and> b < p \<longrightarrow> tick now w0 a \<le>s tick now w0 b"
    proof (intro allI impI)
      fix a b assume "q \<le> a \<and> a \<le> b \<and> b < p"
      with pp' have "q \<le> a \<and> a \<le> b \<and> b < p'" by arith
      with mono have "tick now w a \<le>s tick now w b" by blast
      then show "tick now w0 a \<le>s tick now w0 b" by (simp add: tick_cong [OF sc])
    qed
    have "q < p0" by (simp add: N)
    from callStates_precede [OF c seq0 sb0 N(2) this mono0]
    have before: "\<forall>v\<in>set vs. v = w \<or> precedes v w"
      and q': "\<exists>q'. q \<le> q' \<and> q' < p \<and> LastTimeStamp w = tick now w0 q'"
      by simp_all
    from q' obtain q' where q'': "q \<le> q'" "q' < p" "LastTimeStamp w = tick now w0 q'" by blast
    from q''(1,2) pp' have "q \<le> q' \<and> q' \<le> p \<and> p < p'" by arith
    with mono have "tick now w q' \<le>s tick now w p" by blast
    with q''(3) have nd: "LastTimeStamp w \<le>s tick now w p" by (simp add: tick_cong [OF sc])
    from UnsafeNextID_progress [OF u sr sb nd] have pw: "precedes w w'" by simp
    show ?thesis
    proof
      fix v assume "v \<in> set vs"
      with before have "v = w \<or> precedes v w" by blast
      with pw have "precedes v w'" using precedes_trans by blast
      then show "(LastTimeStamp v, Sequence v) \<noteq> (LastTimeStamp w', Sequence w')"
        by (rule precedes_pair)
    qed
  qed
  from v same wrap never zero later have A:
    "sint ?s = (sint (Sequence w) + 1) mod 2 ^ unat (SequenceBits w)
    \<and> (?s \<noteq> 0 \<longrightarrow>
         UnsafeNextID now w p =
           Some (Inr (composeID (w\<lparr>Sequence := ?s\<rparr>) (LastTimeStamp w)), w\<lparr>Sequence := ?s\<rparr>, Suc p))
    \<and> (?s = 0 \<longrightarrow>
         (\<forall>k. waited now w (Suc p) k \<longrightarrow>
            LastTimeStamp w <s tick now w k
            \<and> UnsafeNextID now w p =
                Some (Inr (composeID (w\<lparr>Sequence := 0, LastTimeStamp := tick now w k\<rparr>)
                             (tick now w k)),
                      w\<lparr>Sequence := 0, LastTimeStamp := tick now w k\<rparr>, Suc k))
         \<and> ((\<forall>k. \<not> waited now w (Suc p) k) \<longrightarrow> UnsafeNextID now w p = None))
    \<and> (unat (SequenceBits w) = 0 \<longrightarrow>
         ?s = 0
         \<and> (\<forall>i w' p'. UnsafeNextID now w p = Some (Inr i, w', p') \<longrightarrow>
               LastTimeStamp w <s LastTimeStamp w' \<and> Sequence w' = 0
               \<and> i = composeID w' (LastTimeStamp w')))"
    by blast
  from field have B: "unat (SequenceBits w) = 0
        \<and> unat (IDBits w) + unat (SequenceBits w) + unat (TimeStampBits w) + 1 \<le> 64
        \<and> 0 \<le> sint (ID w) \<and> sint (ID w) < 2 ^ unat (IDBits w) \<longrightarrow>
         (\<forall>w0 p0 i0 i w' p'.
             (UnsafeNextID now w0 p0 = Some (Inr i0, w, p)
                \<or> NextID now w0 p0 = Some (Inr i0, w, p))
           \<and> (UnsafeNextID now w p = Some (Inr i, w', p')
                \<or> NextID now w p = Some (Inr i, w', p'))
           \<and> tickInRange w (LastTimeStamp w) \<and> tickInRange w (LastTimeStamp w')
           \<longrightarrow> timestampField w i0 <s timestampField w i)"
    by blast
  from pairs have C: "\<forall>id' epoch idBits sequenceBits timestampBits frequency q w0 p0 gen n vs i w' p'.
           NewWorker now id' epoch idBits sequenceBits timestampBits frequency q = Inr (w0, p0)
         \<and> (gen = UnsafeNextID now \<or> gen = NextID now)
         \<and> callStates gen n w0 p0 = Some (Inr vs, w, p)
         \<and> (UnsafeNextID now w p = Some (Inr i, w', p')
              \<or> NextID now w p = Some (Inr i, w', p'))
         \<and> (\<forall>a b. q \<le> a \<and> a \<le> b \<and> b < p' \<longrightarrow> tick now w a \<le>s tick now w b)
         \<longrightarrow> (\<forall>v\<in>set vs. (LastTimeStamp v, Sequence v) \<noteq> (LastTimeStamp w', Sequence w'))"
    by blast
  from A B C show ?thesis unfolding s by (intro conjI) blast+
qed

theorem same_tick_sequence_witness:
  "generator exampleClock exampleWorker (Suc 0)
   \<and> tick exampleClock exampleWorker (Suc 0) = LastTimeStamp exampleWorker
   \<and> (1 :: int64) = rem64 (Sequence exampleWorker + 1) (shl64 1 (SequenceBits exampleWorker))
   \<and> sint (1 :: int64) = (sint (Sequence exampleWorker) + 1) mod 2 ^ unat (SequenceBits exampleWorker)
   \<and> UnsafeNextID exampleClock exampleWorker (Suc 0)
       = Some (Inr 3, exampleWorker\<lparr>Sequence := 1\<rparr>, Suc (Suc 0))
   \<and> generator exampleClock (exampleWorker\<lparr>Sequence := 1\<rparr>) (Suc (Suc 0))
   \<and> tick exampleClock (exampleWorker\<lparr>Sequence := 1\<rparr>) (Suc (Suc 0))
       = LastTimeStamp (exampleWorker\<lparr>Sequence := 1\<rparr>)
   \<and> unat (SequenceBits (exampleWorker\<lparr>Sequence := 1\<rparr>)) < 64
   \<and> (0 :: int64) = rem64 (Sequence (exampleWorker\<lparr>Sequence := 1\<rparr>) + 1)
                       (shl64 1 (SequenceBits (exampleWorker\<lparr>Sequence := 1\<rparr>)))
   \<and> waited exampleClock (exampleWorker\<lparr>Sequence := 1\<rparr>) (Suc (Suc (Suc 0))) 4
   \<and> LastTimeStamp (exampleWorker\<lparr>Sequence := 1\<rparr>)
        <s tick exampleClock (exampleWorker\<lparr>Sequence := 1\<rparr>) 4
   \<and> UnsafeNextID exampleClock (exampleWorker\<lparr>Sequence := 1\<rparr>) (Suc (Suc 0))
       = Some (Inr 10, exampleWorker\<lparr>Sequence := 0, LastTimeStamp := 102\<rparr>, 5)
   \<and> generator stillClock pairWorker (Suc 0)
   \<and> tick stillClock pairWorker (Suc 0) = LastTimeStamp pairWorker
   \<and> (\<forall>k. \<not> waited stillClock pairWorker (Suc (Suc 0)) k)
   \<and> UnsafeNextID stillClock pairWorker (Suc 0) = None
   \<and> NewWorker pairClock 0 100 0 0 5 10 0 = Inr (pairWorker, Suc 0)
   \<and> callStates (UnsafeNextID pairClock) (Suc 0) pairWorker (Suc 0)
       = Some (Inr [pairWorker\<lparr>Sequence := 0, LastTimeStamp := 102\<rparr>],
               pairWorker\<lparr>Sequence := 0, LastTimeStamp := 102\<rparr>, 3)
   \<and> UnsafeNextID pairClock pairWorker (Suc 0)
       = Some (Inr 2, pairWorker\<lparr>Sequence := 0, LastTimeStamp := 102\<rparr>, 3)
   \<and> generator pairClock (pairWorker\<lparr>Sequence := 0, LastTimeStamp := 102\<rparr>) 3
   \<and> tick pairClock (pairWorker\<lparr>Sequence := 0, LastTimeStamp := 102\<rparr>) 3
       = LastTimeStamp (pairWorker\<lparr>Sequence := 0, LastTimeStamp := 102\<rparr>)
   \<and> unat (SequenceBits (pairWorker\<lparr>Sequence := 0, LastTimeStamp := 102\<rparr>)) = 0
   \<and> (0 :: int64) = rem64 (Sequence (pairWorker\<lparr>Sequence := 0, LastTimeStamp := 102\<rparr>) + 1)
                       (shl64 1 (SequenceBits (pairWorker\<lparr>Sequence := 0, LastTimeStamp := 102\<rparr>)))
   \<and> unat (IDBits (pairWorker\<lparr>Sequence := 0, LastTimeStamp := 102\<rparr>))
       + unat (SequenceBits (pairWorker\<lparr>Sequence := 0, LastTimeStamp := 102\<rparr>))
       + unat (TimeStampBits (pairWorker\<lparr>Sequence := 0, LastTimeStamp := 102\<rparr>)) + 1 \<le> 64
   \<and> 0 \<le> sint (ID (pairWorker\<lparr>Sequence := 0, LastTimeStamp := 102\<rparr>))
   \<and> sint (ID (pairWorker\<lparr>Sequence := 0, LastTimeStamp := 102\<rparr>))
       < 2 ^ unat (IDBits (pairWorker\<lparr>Sequence := 0, LastTimeStamp := 102\<rparr>))
   \<and> UnsafeNextID pairClock (pairWorker\<lparr>Sequence := 0, LastTimeStamp := 102\<rparr>) 3
       = Some (Inr 4, pairWorker\<lparr>Sequence := 0, LastTimeStamp := 104\<rparr>, 5)
   \<and> tickInRange (pairWorker\<lparr>Sequence := 0, LastTimeStamp := 102\<rparr>) 102
   \<and> tickInRange (pairWorker\<lparr>Sequence := 0, LastTimeStamp := 102\<rparr>) 104
   \<and> tick pairClock (pairWorker\<lparr>Sequence := 0, LastTimeStamp := 102\<rparr>) 0
        \<le>s tick pairClock (pairWorker\<lparr>Sequence := 0, LastTimeStamp := 102\<rparr>) 1
   \<and> tick pairClock (pairWorker\<lparr>Sequence := 0, LastTimeStamp := 102\<rparr>) 1
        \<le>s tick pairClock (pairWorker\<lparr>Sequence := 0, LastTimeStamp := 102\<rparr>) 2
   \<and> tick pairClock (pairWorker\<lparr>Sequence := 0, LastTimeStamp := 102\<rparr>) 2
        \<le>s tick pairClock (pairWorker\<lparr>Sequence := 0, LastTimeStamp := 102\<rparr>) 3
   \<and> tick pairClock (pairWorker\<lparr>Sequence := 0, LastTimeStamp := 102\<rparr>) 3
        \<le>s tick pairClock (pairWorker\<lparr>Sequence := 0, LastTimeStamp := 102\<rparr>) 4
   \<and> LastTimeStamp (pairWorker\<lparr>Sequence := 0, LastTimeStamp := 102\<rparr>)
        <s LastTimeStamp (pairWorker\<lparr>Sequence := 0, LastTimeStamp := 104\<rparr>)
   \<and> timestampField (pairWorker\<lparr>Sequence := 0, LastTimeStamp := 102\<rparr>) 2
        <s timestampField (pairWorker\<lparr>Sequence := 0, LastTimeStamp := 102\<rparr>) 4
   \<and> (LastTimeStamp (pairWorker\<lparr>Sequence := 0, LastTimeStamp := 102\<rparr>),
        Sequence (pairWorker\<lparr>Sequence := 0, LastTimeStamp := 102\<rparr>))
       \<noteq> (LastTimeStamp (pairWorker\<lparr>Sequence := 0, LastTimeStamp := 104\<rparr>),
           Sequence (pairWorker\<lparr>Sequence := 0, LastTimeStamp := 104\<rparr>))"
proof -
  let ?w = "exampleWorker\<lparr>Sequence := 1\<rparr>"
  have h: "tick exampleClock ?w (Suc (Suc 0)) = LastTimeStamp ?w"
    "unat (SequenceBits ?w) < 64"
    "(0 :: int64) = rem64 (Sequence ?w + 1) (shl64 1 (SequenceBits ?w))"
    by (simp_all add: exampleWorker_def tick_def exampleClock_def shl64_def)
  have k: "waited exampleClock ?w (Suc (Suc (Suc 0))) 4"
    by (auto simp: waited_def exampleWorker_def tick_def exampleClock_def)
  note T = same_tick_sequence [OF example_generator(2) h]
  from T [THEN conjunct2, THEN conjunct2, THEN conjunct1] k
  have "LastTimeStamp ?w <s tick exampleClock ?w 4
     \<and> UnsafeNextID exampleClock ?w (Suc (Suc 0)) =
         Some (Inr (composeID (?w\<lparr>Sequence := 0, LastTimeStamp := tick exampleClock ?w 4\<rparr>)
                      (tick exampleClock ?w 4)),
               ?w\<lparr>Sequence := 0, LastTimeStamp := tick exampleClock ?w 4\<rparr>, Suc 4)"
    by blast
  then have first: "LastTimeStamp ?w <s tick exampleClock ?w 4
     \<and> UnsafeNextID exampleClock ?w (Suc (Suc 0))
         = Some (Inr 10, exampleWorker\<lparr>Sequence := 0, LastTimeStamp := 102\<rparr>, 5)"
    by (simp add: composeID_def shl64_def exampleWorker_def tick_def exampleClock_def)
  have h1: "tick exampleClock exampleWorker (Suc 0) = LastTimeStamp exampleWorker"
    "unat (SequenceBits exampleWorker) < 64"
    "(1 :: int64) = rem64 (Sequence exampleWorker + 1) (shl64 1 (SequenceBits exampleWorker))"
    by (simp_all add: exampleWorker_def tick_def exampleClock_def shl64_def)
  note R = same_tick_sequence [OF example_generator(1) h1]
  from R [THEN conjunct1]
  have incr: "sint (1 :: int64)
      = (sint (Sequence exampleWorker) + 1) mod 2 ^ unat (SequenceBits exampleWorker)" .
  from R [THEN conjunct2, THEN conjunct1]
  have "UnsafeNextID exampleClock exampleWorker (Suc 0) =
      Some (Inr (composeID (exampleWorker\<lparr>Sequence := 1\<rparr>) (LastTimeStamp exampleWorker)),
            exampleWorker\<lparr>Sequence := 1\<rparr>, Suc (Suc 0))"
    by simp
  then have once: "UnsafeNextID exampleClock exampleWorker (Suc 0)
      = Some (Inr 3, exampleWorker\<lparr>Sequence := 1\<rparr>, Suc (Suc 0))"
    by (simp add: composeID_def shl64_def exampleWorker_def)
  have sg: "generator stillClock pairWorker (Suc 0)"
    using still_NewWorker by (rule generator.built)
  have h2: "tick stillClock pairWorker (Suc 0) = LastTimeStamp pairWorker"
    "unat (SequenceBits pairWorker) < 64"
    "(0 :: int64) = rem64 (Sequence pairWorker + 1) (shl64 1 (SequenceBits pairWorker))"
    by (simp_all add: pairWorker_def tick_def stillClock_def shl64_def)
  have nw: "\<forall>k. \<not> waited stillClock pairWorker (Suc (Suc 0)) k"
    using still_waits by blast
  note N = same_tick_sequence [OF sg h2]
  from N [THEN conjunct2, THEN conjunct2, THEN conjunct1] nw
  have never: "UnsafeNextID stillClock pairWorker (Suc 0) = None" by blast
  let ?v = "pairWorker\<lparr>Sequence := 0, LastTimeStamp := 102\<rparr>"
  let ?v' = "pairWorker\<lparr>Sequence := 0, LastTimeStamp := 104\<rparr>"
  have z: "unat (SequenceBits ?v) = 0" by (simp add: pairWorker_def)
  have c: "unat (IDBits ?v) + unat (SequenceBits ?v) + unat (TimeStampBits ?v) + 1 \<le> 64"
    "0 \<le> sint (ID ?v)" "sint (ID ?v) < 2 ^ unat (IDBits ?v)"
    by (simp_all add: pairWorker_def)
  have h': "tick pairClock ?v 3 = LastTimeStamp ?v"
    "unat (SequenceBits ?v) < 64"
    "(0 :: int64) = rem64 (Sequence ?v + 1) (shl64 1 (SequenceBits ?v))"
    by (simp_all add: pairWorker_def tick_def pairClock_def shl64_def)
  have r: "tickInRange ?v 102" "tickInRange ?v 104"
    by (simp_all add: tickInRange_def pairWorker_def)
  have r': "tickInRange ?v (LastTimeStamp ?v)" "tickInRange ?v (LastTimeStamp ?v')"
    using r by simp_all
  have m: "\<forall>a b. 0 \<le> a \<and> a \<le> b \<and> b < 5 \<longrightarrow> tick pairClock ?v a \<le>s tick pairClock ?v b"
    using pair_ticks by blast
  note S = same_tick_sequence [OF pair_generator h']
  from S [THEN conjunct2, THEN conjunct2, THEN conjunct2, THEN conjunct1] z pair_call_2
  have later: "LastTimeStamp ?v <s LastTimeStamp ?v'" by blast
  from S [THEN conjunct2, THEN conjunct2, THEN conjunct2, THEN conjunct2, THEN conjunct1]
    z c pair_call_1 pair_call_2 r'
  have field: "timestampField ?v 2 <s timestampField ?v 4" by blast
  from S [THEN conjunct2, THEN conjunct2, THEN conjunct2, THEN conjunct2, THEN conjunct2]
    pair_NewWorker pair_states pair_call_2 m
  have "\<forall>u\<in>set [?v]. (LastTimeStamp u, Sequence u) \<noteq> (LastTimeStamp ?v', Sequence ?v')"
    by blast
  then have pair: "(LastTimeStamp ?v, Sequence ?v) \<noteq> (LastTimeStamp ?v', Sequence ?v')"
    by simp
  show ?thesis
    using example_generator(1) h1(1,3) incr once sg h2(1) nw never
      example_generator(2) h k first pair_NewWorker pair_states pair_call_1 pair_generator
      h'(1) z h'(3) c pair_call_2 r later field pair
      pair_ticks [of 0 1] pair_ticks [of 1 2] pair_ticks [of 2 3] pair_ticks [of 3 4]
    by (intro conjI) simp_all
qed

text \<open>
  Five runs, each a same-tick call outside one of the conditions. With \<open>SequenceBits\<close>
  of 64 or more the divisor \<^verbatim>\<open>1 << w.SequenceBits\<close> of line 81 is zero: the Worker
  built with the widths 0, 65, 0 panics in its first call within the tick of its
  construction, and its sequence is not incremented. The other four have
  \<open>SequenceBits = 0\<close>. With the widths 64, 0, 1 the timestamp is shifted out of the
  id: the ids of the ticks 5 and 6 are both 7. With worker id 96 in a field of 5 bits
  the worker id covers the low bits of the timestamp: both ids are 96. With the tick
  69, which is 64 past the epoch, in a field of 6 bits, the timestamp fields of the
  ids 0 and 2048 are both 0. On \<open>backClock\<close> the second call reads a tick behind the
  recorded one and records it (lines 76-78 and 92), and the third call, on that same
  tick, waits and returns the pair of tick 5 and sequence 0 that the first call
  returned.
\<close>

theorem same_tick_sequence_counterexample:
  "NewWorker stepClock 0 0 0 65 0 1 0 = Inr (oversizedWorker, Suc 0)
   \<and> tick stepClock oversizedWorker (Suc 0) = LastTimeStamp oversizedWorker
   \<and> UnsafeNextID stepClock oversizedWorker (Suc 0)
       = Some (Inl DivideByZero, oversizedWorker, Suc (Suc 0))
   \<and> NextID stepClock oversizedWorker (Suc 0)
       = Some (Inl DivideByZero, oversizedWorker, Suc (Suc 0))
   \<and> NewWorker (lateClock 6) 7 5 64 0 1 1 0 = Inr (fieldWorker 7 64 1, Suc 0)
   \<and> UnsafeNextID (lateClock 6) (fieldWorker 7 64 1) (Suc 0)
       = Some (Inr 7, fieldWorker 7 64 1\<lparr>Sequence := 0, LastTimeStamp := 5\<rparr>, 2)
   \<and> tick (lateClock 6) (fieldWorker 7 64 1\<lparr>Sequence := 0, LastTimeStamp := 5\<rparr>) 2
       = LastTimeStamp (fieldWorker 7 64 1\<lparr>Sequence := 0, LastTimeStamp := 5\<rparr>)
   \<and> UnsafeNextID (lateClock 6) (fieldWorker 7 64 1\<lparr>Sequence := 0, LastTimeStamp := 5\<rparr>) 2
       = Some (Inr 7, fieldWorker 7 64 1\<lparr>Sequence := 0, LastTimeStamp := 6\<rparr>, 4)
   \<and> unat (IDBits (fieldWorker 7 64 1)) + unat (SequenceBits (fieldWorker 7 64 1))
       + unat (TimeStampBits (fieldWorker 7 64 1)) + 1 = 66
   \<and> 0 \<le> sint (ID (fieldWorker 7 64 1))
   \<and> sint (ID (fieldWorker 7 64 1)) < 2 ^ unat (IDBits (fieldWorker 7 64 1))
   \<and> tickInRange (fieldWorker 7 64 1\<lparr>Sequence := 0, LastTimeStamp := 5\<rparr>) 5
   \<and> tickInRange (fieldWorker 7 64 1\<lparr>Sequence := 0, LastTimeStamp := 5\<rparr>) 6
   \<and> timestampField (fieldWorker 7 64 1\<lparr>Sequence := 0, LastTimeStamp := 5\<rparr>) 7 = 0
   \<and> \<not> timestampField (fieldWorker 7 64 1\<lparr>Sequence := 0, LastTimeStamp := 5\<rparr>) 7
         <s timestampField (fieldWorker 7 64 1\<lparr>Sequence := 0, LastTimeStamp := 5\<rparr>) 7
   \<and> NewWorker (lateClock 6) 96 5 5 0 6 1 0 = Inr (fieldWorker 96 5 6, Suc 0)
   \<and> UnsafeNextID (lateClock 6) (fieldWorker 96 5 6) (Suc 0)
       = Some (Inr 96, fieldWorker 96 5 6\<lparr>Sequence := 0, LastTimeStamp := 5\<rparr>, 2)
   \<and> tick (lateClock 6) (fieldWorker 96 5 6\<lparr>Sequence := 0, LastTimeStamp := 5\<rparr>) 2
       = LastTimeStamp (fieldWorker 96 5 6\<lparr>Sequence := 0, LastTimeStamp := 5\<rparr>)
   \<and> UnsafeNextID (lateClock 6) (fieldWorker 96 5 6\<lparr>Sequence := 0, LastTimeStamp := 5\<rparr>) 2
       = Some (Inr 96, fieldWorker 96 5 6\<lparr>Sequence := 0, LastTimeStamp := 6\<rparr>, 4)
   \<and> unat (IDBits (fieldWorker 96 5 6)) + unat (SequenceBits (fieldWorker 96 5 6))
       + unat (TimeStampBits (fieldWorker 96 5 6)) + 1 = 12
   \<and> sint (ID (fieldWorker 96 5 6)) = 96
   \<and> (2 :: int) ^ unat (IDBits (fieldWorker 96 5 6)) = 32
   \<and> tickInRange (fieldWorker 96 5 6\<lparr>Sequence := 0, LastTimeStamp := 5\<rparr>) 5
   \<and> tickInRange (fieldWorker 96 5 6\<lparr>Sequence := 0, LastTimeStamp := 5\<rparr>) 6
   \<and> timestampField (fieldWorker 96 5 6\<lparr>Sequence := 0, LastTimeStamp := 5\<rparr>) 96 = 3
   \<and> \<not> timestampField (fieldWorker 96 5 6\<lparr>Sequence := 0, LastTimeStamp := 5\<rparr>) 96
         <s timestampField (fieldWorker 96 5 6\<lparr>Sequence := 0, LastTimeStamp := 5\<rparr>) 96
   \<and> NewWorker (lateClock 69) 0 5 5 0 6 1 0 = Inr (fieldWorker 0 5 6, Suc 0)
   \<and> UnsafeNextID (lateClock 69) (fieldWorker 0 5 6) (Suc 0)
       = Some (Inr 0, fieldWorker 0 5 6\<lparr>Sequence := 0, LastTimeStamp := 5\<rparr>, 2)
   \<and> tick (lateClock 69) (fieldWorker 0 5 6\<lparr>Sequence := 0, LastTimeStamp := 5\<rparr>) 2
       = LastTimeStamp (fieldWorker 0 5 6\<lparr>Sequence := 0, LastTimeStamp := 5\<rparr>)
   \<and> UnsafeNextID (lateClock 69) (fieldWorker 0 5 6\<lparr>Sequence := 0, LastTimeStamp := 5\<rparr>) 2
       = Some (Inr 2048, fieldWorker 0 5 6\<lparr>Sequence := 0, LastTimeStamp := 69\<rparr>, 4)
   \<and> unat (IDBits (fieldWorker 0 5 6)) + unat (SequenceBits (fieldWorker 0 5 6))
       + unat (TimeStampBits (fieldWorker 0 5 6)) + 1 = 12
   \<and> 0 \<le> sint (ID (fieldWorker 0 5 6))
   \<and> sint (ID (fieldWorker 0 5 6)) < 2 ^ unat (IDBits (fieldWorker 0 5 6))
   \<and> tickInRange (fieldWorker 0 5 6\<lparr>Sequence := 0, LastTimeStamp := 5\<rparr>) 5
   \<and> \<not> tickInRange (fieldWorker 0 5 6\<lparr>Sequence := 0, LastTimeStamp := 5\<rparr>) 69
   \<and> timestampField (fieldWorker 0 5 6\<lparr>Sequence := 0, LastTimeStamp := 5\<rparr>) 0 = 0
   \<and> timestampField (fieldWorker 0 5 6\<lparr>Sequence := 0, LastTimeStamp := 5\<rparr>) 2048 = 0
   \<and> \<not> timestampField (fieldWorker 0 5 6\<lparr>Sequence := 0, LastTimeStamp := 5\<rparr>) 0
         <s timestampField (fieldWorker 0 5 6\<lparr>Sequence := 0, LastTimeStamp := 5\<rparr>) 2048
   \<and> NewWorker backClock 0 0 0 0 5 1 0 = Inr (backWorker, Suc 0)
   \<and> callStates (UnsafeNextID backClock) (Suc (Suc 0)) backWorker (Suc 0)
       = Some (Inr [backWorker\<lparr>Sequence := 0, LastTimeStamp := 5\<rparr>,
                    backWorker\<lparr>Sequence := 0, LastTimeStamp := 3\<rparr>],
               backWorker\<lparr>Sequence := 0, LastTimeStamp := 3\<rparr>, 4)
   \<and> generator backClock (backWorker\<lparr>Sequence := 0, LastTimeStamp := 3\<rparr>) 4
   \<and> tick backClock (backWorker\<lparr>Sequence := 0, LastTimeStamp := 3\<rparr>) 4
       = LastTimeStamp (backWorker\<lparr>Sequence := 0, LastTimeStamp := 3\<rparr>)
   \<and> unat (SequenceBits (backWorker\<lparr>Sequence := 0, LastTimeStamp := 3\<rparr>)) = 0
   \<and> tick backClock (backWorker\<lparr>Sequence := 0, LastTimeStamp := 3\<rparr>) 2
        <s tick backClock (backWorker\<lparr>Sequence := 0, LastTimeStamp := 3\<rparr>) 1
   \<and> UnsafeNextID backClock (backWorker\<lparr>Sequence := 0, LastTimeStamp := 3\<rparr>) 4
       = Some (Inr 5, backWorker\<lparr>Sequence := 0, LastTimeStamp := 5\<rparr>, 6)
   \<and> \<not> (\<forall>v\<in>set [backWorker\<lparr>Sequence := 0, LastTimeStamp := 5\<rparr>,
                    backWorker\<lparr>Sequence := 0, LastTimeStamp := 3\<rparr>].
            (LastTimeStamp v, Sequence v)
              \<noteq> (LastTimeStamp (backWorker\<lparr>Sequence := 0, LastTimeStamp := 5\<rparr>),
                  Sequence (backWorker\<lparr>Sequence := 0, LastTimeStamp := 5\<rparr>)))"
proof -
  have n: "NewWorker stepClock 0 0 0 65 0 1 0 = Inr (oversizedWorker, Suc 0)"
    by (simp add: NewWorker_def Time_def stepClock_def oversizedWorker_def Let_def)
  have t: "tick stepClock oversizedWorker (Suc 0) = LastTimeStamp oversizedWorker"
    by (simp add: tick_def stepClock_def oversizedWorker_def)
  have u: "UnsafeNextID stepClock oversizedWorker (Suc 0)
       = Some (Inl DivideByZero, oversizedWorker, Suc (Suc 0))"
    by (simp add: UnsafeNextID_def Time_def driftStep_def sequenceStep_def shl64_def
        stepClock_def oversizedWorker_def)
  have "\<not> mutex oversizedWorker" by (simp add: oversizedWorker_def)
  then have s: "NextID stepClock oversizedWorker (Suc 0)
       = UnsafeNextID stepClock oversizedWorker (Suc 0)" by (rule NextID_unlocked)
  have six: "(5 :: int64) <s 6" "(5 :: int64) <s 69" by (simp_all add: word_sless_alt)
  have ticks: "tick (lateClock x) (fieldWorker i b c\<lparr>Sequence := 0, LastTimeStamp := 5\<rparr>) 2
       = LastTimeStamp (fieldWorker i b c\<lparr>Sequence := 0, LastTimeStamp := 5\<rparr>)" for x i b c
    by (simp add: tick_def lateClock_def fieldWorker_def)
  have widths: "unat (IDBits (fieldWorker 7 64 1)) + unat (SequenceBits (fieldWorker 7 64 1))
       + unat (TimeStampBits (fieldWorker 7 64 1)) + 1 = 66"
    "unat (IDBits (fieldWorker i 5 6)) + unat (SequenceBits (fieldWorker i 5 6))
       + unat (TimeStampBits (fieldWorker i 5 6)) + 1 = 12" for i
    by (simp_all add: fieldWorker_def)
  have ids: "0 \<le> sint (ID (fieldWorker 7 64 1))"
    "sint (ID (fieldWorker 7 64 1)) < 2 ^ unat (IDBits (fieldWorker 7 64 1))"
    "sint (ID (fieldWorker 96 5 6)) = 96"
    "(2 :: int) ^ unat (IDBits (fieldWorker 96 5 6)) = 32"
    "0 \<le> sint (ID (fieldWorker 0 5 6))"
    "sint (ID (fieldWorker 0 5 6)) < 2 ^ unat (IDBits (fieldWorker 0 5 6))"
    by (simp_all add: fieldWorker_def)
  have windows:
    "tickInRange (fieldWorker 7 64 1\<lparr>Sequence := 0, LastTimeStamp := 5\<rparr>) 5"
    "tickInRange (fieldWorker 7 64 1\<lparr>Sequence := 0, LastTimeStamp := 5\<rparr>) 6"
    "tickInRange (fieldWorker i 5 6\<lparr>Sequence := 0, LastTimeStamp := 5\<rparr>) 5"
    "tickInRange (fieldWorker i 5 6\<lparr>Sequence := 0, LastTimeStamp := 5\<rparr>) 6"
    "\<not> tickInRange (fieldWorker i 5 6\<lparr>Sequence := 0, LastTimeStamp := 5\<rparr>) 69" for i
    by (simp_all add: tickInRange_def fieldWorker_def)
  have bk: "tick backClock (backWorker\<lparr>Sequence := 0, LastTimeStamp := 3\<rparr>) 4
       = LastTimeStamp (backWorker\<lparr>Sequence := 0, LastTimeStamp := 3\<rparr>)"
    "unat (SequenceBits (backWorker\<lparr>Sequence := 0, LastTimeStamp := 3\<rparr>)) = 0"
    "tick backClock (backWorker\<lparr>Sequence := 0, LastTimeStamp := 3\<rparr>) 2
        <s tick backClock (backWorker\<lparr>Sequence := 0, LastTimeStamp := 3\<rparr>) 1"
    by (simp_all add: tick_def backClock_def backWorker_def word_sless_alt)
  show ?thesis
    using n t u s late_NewWorker late_call_1 late_call_2 [OF six(1)]
      late_call_2 [OF six(2)] ticks widths ids windows late_ids late_fields
      back_NewWorker back_states back_generator bk back_call_3
    by (intro conjI) simp_all
qed

end
